theory Spec2Isabelle
  imports Complex_Main "HOL-Library.AList" "HOL-Library.Word"
begin

section \<open>Go strings, as the code uses them\<close>

text \<open>
  A Go \<^verbatim>\<open>string\<close> is a byte sequence; it is modelled as a \<^typ>\<open>string\<close> (a list of
  8-bit characters). \<^verbatim>\<open>len\<close> is \<^const>\<open>length\<close>, \<^verbatim>\<open>s[:i]\<close> is \<^const>\<open>take\<close> and
  \<^verbatim>\<open>s[i:]\<close> is \<^const>\<open>drop\<close>. The functions of package \<^verbatim>\<open>strings\<close> that the
  repository calls are written out below.
\<close>

definition HasPrefix :: "string \<Rightarrow> string \<Rightarrow> bool" where
  "HasPrefix s p = (take (length p) s = p)"

text \<open>\<^verbatim>\<open>strings.Index\<close>: the byte offset of the first occurrence, or \<open>-1\<close>.\<close>

fun Index :: "string \<Rightarrow> string \<Rightarrow> int" where
  "Index [] substr = (if substr = [] then 0 else - 1)"
| "Index (c # cs) substr =
     (if HasPrefix (c # cs) substr then 0
      else (let i = Index cs substr in if i < 0 then - 1 else i + 1))"

text \<open>
  \<^verbatim>\<open>utf8.RuneCountInString\<close>, which \<^verbatim>\<open>strings.Count\<close> calls for the empty
  separator. A rune is one to four bytes of well-formed UTF-8; a byte that starts no
  well-formed sequence counts as a rune of its own. The tables of package \<^verbatim>\<open>utf8\<close>
  are written out: the lead bytes \<open>C2..DF\<close> start two bytes, \<open>E0..EF\<close> three and
  \<open>F0..F4\<close> four, the second byte lies in \<open>80..BF\<close> (from \<open>A0\<close> after \<open>E0\<close>, up to
  \<open>9F\<close> after \<open>ED\<close>, from \<open>90\<close> after \<open>F0\<close>, up to \<open>8F\<close> after \<open>F4\<close>) and the
  later bytes in \<open>80..BF\<close>.
\<close>

definition rune_width :: "nat list \<Rightarrow> nat" where
  "rune_width bs =
     (case bs of
        [] \<Rightarrow> 0
      | c # rest \<Rightarrow>
          if c < 0x80 then 1
          else if c < 0xC2 \<or> 0xF4 < c then 1
          else
            (let size = (if c < 0xE0 then 2 else if c < 0xF0 then 3 else 4);
                 lo = (if c = 0xE0 then 0xA0 else if c = 0xF0 then 0x90 else 0x80);
                 hi = (if c = 0xED then 0x9F else if c = 0xF4 then 0x8F else 0xBF)
             in if length bs < size then 1
                else if rest ! 0 < lo \<or> hi < rest ! 0 then 1
                else if size = 2 then 2
                else if rest ! 1 < 0x80 \<or> 0xBF < rest ! 1 then 1
                else if size = 3 then 3
                else if rest ! 2 < 0x80 \<or> 0xBF < rest ! 2 then 1
                else 4))"

lemma rune_width_pos: "bs \<noteq> [] \<Longrightarrow> 0 < rune_width bs"
  by (cases bs) (simp_all add: rune_width_def Let_def)

function RuneCount_bytes :: "nat list \<Rightarrow> nat" where
  "RuneCount_bytes bs = (if bs = [] then 0 else Suc (RuneCount_bytes (drop (rune_width bs) bs)))"
  by pat_completeness auto
termination
proof (relation "measure length")
  show "wf (measure length)" by simp
next
  fix bs :: "nat list"
  assume "bs \<noteq> []"
  with rune_width_pos [of bs] show "(drop (rune_width bs) bs, bs) \<in> measure length"
    by simp
qed

declare RuneCount_bytes.simps [simp del]

definition RuneCountInString :: "string \<Rightarrow> nat" where
  "RuneCountInString s = RuneCount_bytes (map of_char s)"

text \<open>
  \<^verbatim>\<open>strings.Count\<close>: the number of non-overlapping occurrences, found from the left;
  for the empty separator the number of runes plus one.
\<close>

function Count_loop :: "string \<Rightarrow> string \<Rightarrow> nat" where
  "Count_loop s substr =
     (if substr = [] then 0
      else (let i = Index s substr in
            if i < 0 then 0
            else Suc (Count_loop (drop (nat i + length substr) s) substr)))"
  by pat_completeness auto

lemma Index_ge: "- 1 \<le> Index s sub"
  by (induction s) (auto simp: Let_def)

lemma Index_found: "0 \<le> Index s sub \<Longrightarrow> HasPrefix (drop (nat (Index s sub)) s) sub"
proof (induction s)
  case Nil
  then show ?case by (auto simp: HasPrefix_def split: if_splits)
next
  case (Cons c cs)
  show ?case
  proof (cases "HasPrefix (c # cs) sub")
    case True
    then show ?thesis by simp
  next
    case False
    with Cons.prems have nn: "0 \<le> Index cs sub"
      by (auto simp: Let_def split: if_splits)
    with False have "Index (c # cs) sub = Index cs sub + 1"
      by (auto simp: Let_def)
    with nn Cons.IH show ?thesis
      by (simp add: nat_add_distrib)
  qed
qed

lemma HasPrefix_length:
  assumes "HasPrefix s p"
  shows "length p \<le> length s"
proof -
  from assms have "length (take (length p) s) = length p"
    by (simp add: HasPrefix_def)
  then show ?thesis by simp
qed

lemma HasPrefix_append:
  assumes "HasPrefix s p"
  shows "s = p @ drop (length p) s"
proof -
  have "s = take (length p) s @ drop (length p) s" by simp
  with assms show ?thesis by (simp add: HasPrefix_def)
qed

lemma Index_bound: "0 \<le> Index s sub \<Longrightarrow> nat (Index s sub) + length sub \<le> length s"
proof -
  assume a: "0 \<le> Index s sub"
  have "length sub \<le> length (drop (nat (Index s sub)) s)"
    using Index_found [OF a] by (rule HasPrefix_length)
  moreover have "nat (Index s sub) \<le> length s"
  proof (rule ccontr)
    assume "\<not> nat (Index s sub) \<le> length s"
    then have "drop (nat (Index s sub)) s = []" by simp
    with Index_found [OF a] have "sub = []" by (simp add: HasPrefix_def)
    then have "Index s sub \<le> 0" by (cases s) (auto simp: HasPrefix_def)
    with \<open>\<not> nat (Index s sub) \<le> length s\<close> show False by simp
  qed
  ultimately show ?thesis by simp
qed

lemma Index_split:
  assumes "0 \<le> Index s sub"
  shows "s = take (nat (Index s sub)) s @ sub @ drop (nat (Index s sub) + length sub) s"
proof -
  have "drop (nat (Index s sub)) s = sub @ drop (length sub) (drop (nat (Index s sub)) s)"
    using HasPrefix_append [OF Index_found [OF assms]] .
  then have "drop (nat (Index s sub)) s = sub @ drop (nat (Index s sub) + length sub) s"
    by (simp add: add.commute)
  then show ?thesis
    by (metis append_take_drop_id)
qed

lemma Index_none: "Index s sub < 0 \<Longrightarrow> \<not> HasPrefix (drop k s) sub"
proof (induction s arbitrary: k)
  case Nil
  then show ?case by (auto simp: HasPrefix_def split: if_splits)
next
  case (Cons c cs)
  from Cons.prems have np: "\<not> HasPrefix (c # cs) sub" and neg: "Index cs sub < 0"
    by (auto simp: Let_def split: if_splits)
  show ?case
  proof (cases k)
    case 0
    with np show ?thesis by simp
  next
    case (Suc j)
    with Cons.IH [OF neg] show ?thesis by simp
  qed
qed

lemma Index_first: "0 \<le> Index s sub \<Longrightarrow> k < nat (Index s sub) \<Longrightarrow> \<not> HasPrefix (drop k s) sub"
proof (induction s arbitrary: k)
  case Nil
  then show ?case by (auto split: if_splits)
next
  case (Cons c cs)
  from Cons.prems(2) have np: "\<not> HasPrefix (c # cs) sub"
    by (auto simp: Let_def split: if_splits)
  with Cons.prems have nn: "0 \<le> Index cs sub" and eq: "Index (c # cs) sub = Index cs sub + 1"
    by (auto simp: Let_def split: if_splits)
  show ?case
  proof (cases k)
    case 0
    with np show ?thesis by simp
  next
    case (Suc j)
    with Cons.prems(2) eq nn have "j < nat (Index cs sub)" by simp
    with Cons.IH [OF nn] Suc show ?thesis by simp
  qed
qed

termination Count_loop
proof (relation "measure (\<lambda>(s, substr). length s)")
  show "wf (measure (\<lambda>(s, substr). length s))" by simp
next
  fix s substr :: string and x :: int
  assume ne: "substr \<noteq> []" and x: "x = Index s substr" and nn: "\<not> x < 0"
  from x nn have b: "nat (Index s substr) + length substr \<le> length s"
    using Index_bound by simp
  from ne have "0 < length substr" by simp
  with b have "length s - (nat (Index s substr) + length substr) < length s"
    by linarith
  with x show "((drop (nat x + length substr) s, substr), (s, substr)) \<in> measure (\<lambda>(s, substr). length s)"
    by simp
qed

declare Count_loop.simps [simp del]

definition Count :: "string \<Rightarrow> string \<Rightarrow> nat" where
  "Count s substr = (if substr = [] then RuneCountInString s + 1 else Count_loop s substr)"

text \<open>
  \<^verbatim>\<open>strings.Replace(s, old, new, 1)\<close>: the first occurrence replaced (the empty
  \<^verbatim>\<open>old\<close> matches at offset 0), the text itself when there is none.
\<close>

definition Replace1 :: "string \<Rightarrow> string \<Rightarrow> string \<Rightarrow> string" where
  "Replace1 s old new =
     (if old = new then s
      else if Count s old = 0 then s
      else (let j = (if old = [] then 0 else nat (Index s old))
            in take j s @ new @ drop (j + length old) s))"

text \<open>\<^verbatim>\<open>strings.ReplaceAll\<close> for a one-byte pattern, the only use in the repository.\<close>

definition ReplaceAll_byte :: "string \<Rightarrow> char \<Rightarrow> string \<Rightarrow> string" where
  "ReplaceAll_byte s old new = concat (map (\<lambda>c. if c = old then new else [c]) s)"

text \<open>
  \<^verbatim>\<open>strings.TrimSpace\<close> on the ASCII white space (tab, line feed, vertical tab, form
  feed, carriage return, space). The two non-ASCII code points Go also strips take two
  bytes each in UTF-8 and do not occur in what the code trims (command output in base64
  and diagnostics).
\<close>

definition isSpace :: "char \<Rightarrow> bool" where
  "isSpace c = (c \<in> {CHR 0x09, CHR 0x0A, CHR 0x0B, CHR 0x0C, CHR 0x0D, CHR 0x20})"

definition TrimSpace :: "string \<Rightarrow> string" where
  "TrimSpace s = rev (dropWhile isSpace (rev (dropWhile isSpace s)))"

text \<open>\<^verbatim>\<open>fmt\<close>'s verb \<^verbatim>\<open>%d\<close>: the decimal digits, with a minus sign when negative.\<close>

definition digit :: "nat \<Rightarrow> char" where
  "digit d = ''0123456789'' ! d"

function show_nat :: "nat \<Rightarrow> string" where
  "show_nat n = (if n < 10 then [digit n] else show_nat (n div 10) @ [digit (n mod 10)])"
  by pat_completeness auto
termination
  by (relation "measure id") auto

declare show_nat.simps [simp del]

definition fmt_d :: "int \<Rightarrow> string" where
  "fmt_d i = (if i < 0 then CHR ''-'' # show_nat (nat (- i)) else show_nat (nat i))"


fun Split_byte :: "string \<Rightarrow> char \<Rightarrow> string list" where
  "Split_byte [] sep = [[]]"
| "Split_byte (c # cs) sep =
     (if c = sep then [] # Split_byte cs sep
      else (case Split_byte cs sep of [] \<Rightarrow> [[c]] | l # ls \<Rightarrow> (c # l) # ls))"

section \<open>Package ssh: quoting, the transport and the session names\<close>

text \<open>\<^verbatim>\<open>shellQuote\<close> (the same function in package ssh and in package main).\<close>

definition shellQuote :: "string \<Rightarrow> string" where
  "shellQuote s = [CHR 0x27] @ ReplaceAll_byte s (CHR 0x27) [CHR 0x27, CHR ''\"'', CHR 0x27, CHR ''\"'', CHR 0x27] @ [CHR 0x27]"

text \<open>
  \<^verbatim>\<open>Client.Exec\<close> runs one command on the remote target and returns its standard
  output, standard error, exit code and a Go error. The remote target is outside the
  program: it is a parameter, a function from the command and the state of the world to
  the answer and the next state. The mutex of \<^verbatim>\<open>Exec\<close> serialises the calls; the model
  is sequential.
\<close>

record exec_result =
  stdout :: string
  stderr :: string
  exitCode :: int
  err :: "string option"

type_synonym 'w transport = "string \<Rightarrow> 'w \<Rightarrow> exec_result \<times> 'w"

definition tmuxPrefix :: string where
  "tmuxPrefix = ''copilot-''"

definition misePATH :: string where
  "misePATH = ''PATH=\"$HOME/.local/bin:$HOME/.local/share/mise/shims:$PATH\"''"

definition tmuxSessionName :: "string \<Rightarrow> string" where
  "tmuxSessionName sessionID = tmuxPrefix @ sessionID"

definition execTmux :: "'w transport \<Rightarrow> string \<Rightarrow> 'w \<Rightarrow> exec_result \<times> 'w" where
  "execTmux Exec tmuxCmd w = Exec (misePATH @ '' && '' @ tmuxCmd) w"

subsection \<open>The transfer encoding (encoding/base64, StdEncoding)\<close>

definition b64chars :: string where
  "b64chars = ''ABCDEFGHIJKLMNOPQRSTUVWXYZabcdefghijklmnopqrstuvwxyz0123456789+/''"

definition b64enc :: "nat \<Rightarrow> char" where
  "b64enc n = b64chars ! n"

fun pos_of :: "char \<Rightarrow> string \<Rightarrow> nat option" where
  "pos_of c [] = None"
| "pos_of c (x # xs) = (if c = x then Some 0 else map_option Suc (pos_of c xs))"

definition b64dec :: "char \<Rightarrow> nat option" where
  "b64dec c = pos_of c b64chars"

fun encode_bytes :: "nat list \<Rightarrow> string" where
  "encode_bytes [] = []"
| "encode_bytes [a] = [b64enc (a div 4), b64enc ((a mod 4) * 16), CHR ''='', CHR ''='']"
| "encode_bytes [a, b] =
     [b64enc (a div 4), b64enc ((a mod 4) * 16 + b div 16), b64enc ((b mod 16) * 4), CHR ''='']"
| "encode_bytes (a # b # c # rest) =
     [b64enc (a div 4), b64enc ((a mod 4) * 16 + b div 16),
      b64enc ((b mod 16) * 4 + c div 64), b64enc (c mod 64)] @ encode_bytes rest"

definition EncodeToString :: "string \<Rightarrow> string" where
  "EncodeToString s = encode_bytes (map of_char s)"

text \<open>
  Decoding skips carriage returns and line feeds, wants full groups of four with the
  padding at the end only, and fails on anything else (Go's \<^verbatim>\<open>CorruptInputError\<close>).
\<close>

fun decode_groups :: "string \<Rightarrow> nat list option" where
  "decode_groups [] = Some []"
| "decode_groups [p, q, r, s] =
     (case (b64dec p, b64dec q) of
        (Some x, Some y) \<Rightarrow>
          (if r = CHR ''='' then (if s = CHR ''='' then Some [x * 4 + y div 16] else None)
           else (case b64dec r of
                   None \<Rightarrow> None
                 | Some z \<Rightarrow>
                     (if s = CHR ''='' then Some [x * 4 + y div 16, (y mod 16) * 16 + z div 4]
                      else (case b64dec s of
                              None \<Rightarrow> None
                            | Some v \<Rightarrow> Some [x * 4 + y div 16, (y mod 16) * 16 + z div 4, (z mod 4) * 64 + v]))))
      | _ \<Rightarrow> None)"
| "decode_groups (p # q # r # s # rest) =
     (case (b64dec p, b64dec q, b64dec r, b64dec s) of
        (Some x, Some y, Some z, Some v) \<Rightarrow>
          map_option (\<lambda>bs. [x * 4 + y div 16, (y mod 16) * 16 + z div 4, (z mod 4) * 64 + v] @ bs)
            (decode_groups rest)
      | _ \<Rightarrow> None)"
| "decode_groups _ = None"

definition DecodeString :: "string \<Rightarrow> string option" where
  "DecodeString s =
     map_option (map char_of) (decode_groups (filter (\<lambda>c. c \<noteq> CHR 0x0D \<and> c \<noteq> CHR 0x0A) s))"

subsection \<open>The remote operations of the client\<close>

text \<open>
  A Go \<^verbatim>\<open>error\<close> is modelled by its message (\<^verbatim>\<open>err.Error()\<close>), the only thing the
  callers read; \<^verbatim>\<open>fmt.Errorf("p: %w", err)\<close> puts the prefix before the message. A
  function that returns \<^verbatim>\<open>(string, error)\<close> returns a sum, \<^const>\<open>Inl\<close> the error;
  a function that returns \<^verbatim>\<open>error\<close> alone returns an option, \<^const>\<open>None\<close> for
  \<^verbatim>\<open>nil\<close>. The message of a base64 decoding error also names the offending byte
  offset in Go; the model leaves the offset out.
\<close>

definition awkPrint :: string where
  "awkPrint = ''{print NR\". \"$0}'' @ [CHR 0x27]"

definition ViewFile_cmd :: "string \<Rightarrow> int list \<Rightarrow> string" where
  "ViewFile_cmd path viewRange =
     (if length viewRange = 2 then
        (if viewRange ! 1 = - 1 then
           ''awk 'NR>='' @ fmt_d (viewRange ! 0) @ '' '' @ awkPrint @ '' '' @ shellQuote path
         else
           ''awk 'NR>='' @ fmt_d (viewRange ! 0) @ '' && NR<='' @ fmt_d (viewRange ! 1) @ '' ''
             @ awkPrint @ '' '' @ shellQuote path)
      else ''awk '' @ [CHR 0x27] @ awkPrint @ '' '' @ shellQuote path)"

definition ViewFile :: "'w transport \<Rightarrow> string \<Rightarrow> int list \<Rightarrow> 'w \<Rightarrow> (string + string) \<times> 'w" where
  "ViewFile Exec path viewRange w =
     (let (r, w1) = Exec (ViewFile_cmd path viewRange) w in
      case err r of
        Some e \<Rightarrow> (Inl (''view file: '' @ e), w1)
      | None \<Rightarrow>
          if exitCode r \<noteq> 0 then
            (Inl (''view file failed (exit '' @ fmt_d (exitCode r) @ ''): '' @ stderr r), w1)
          else (Inr (stdout r), w1))"

definition EditFile :: "'w transport \<Rightarrow> string \<Rightarrow> string \<Rightarrow> string \<Rightarrow> 'w \<Rightarrow> string option \<times> 'w" where
  "EditFile Exec path oldStr newStr w =
     (let (r, w1) = Exec (''base64 < '' @ shellQuote path) w in
      case err r of
        Some e \<Rightarrow> (Some (''edit file (read): '' @ e), w1)
      | None \<Rightarrow>
          if exitCode r \<noteq> 0 then
            (Some (''edit file (read) failed (exit '' @ fmt_d (exitCode r) @ ''): ''
                     @ TrimSpace (stderr r)), w1)
          else
            (case DecodeString (TrimSpace (stdout r)) of
               None \<Rightarrow> (Some ''edit file (decode): illegal base64 data'', w1)
             | Some contentStr \<Rightarrow>
                 (let count = Count contentStr oldStr in
                  if count = 0 then (Some ''old_str not found in file'', w1)
                  else if count > 1 then
                    (Some (''old_str found '' @ fmt_d (int count) @ '' times, must be unique''), w1)
                  else
                    (let newContent = Replace1 contentStr oldStr newStr;
                         b64 = EncodeToString newContent;
                         cmd = ''echo '' @ shellQuote b64 @ '' | base64 -d > '' @ shellQuote path;
                         (r2, w2) = Exec cmd w1
                     in case err r2 of
                          Some e \<Rightarrow> (Some (''edit file (write): '' @ e), w2)
                        | None \<Rightarrow>
                            if exitCode r2 \<noteq> 0 then
                              (Some (''edit file (write) failed (exit '' @ fmt_d (exitCode r2)
                                       @ ''): '' @ TrimSpace (stderr r2)), w2)
                            else (None, w2)))))"



subsection \<open>The transfer encoding decodes what it encoded\<close>

lemma pos_of_nth: "distinct xs \<Longrightarrow> n < length xs \<Longrightarrow> pos_of (xs ! n) xs = Some n"
proof (induction xs arbitrary: n)
  case Nil
  then show ?case by simp
next
  case (Cons x xs)
  show ?case
  proof (cases n)
    case 0
    then show ?thesis by simp
  next
    case (Suc m)
    with Cons.prems have "xs ! m \<noteq> x" by auto
    with Suc Cons show ?thesis by simp
  qed
qed

lemma distinct_b64chars: "distinct b64chars"
  by (simp add: b64chars_def)

lemma length_b64chars: "length b64chars = 64"
  by (simp add: b64chars_def)

lemma b64dec_enc: "n < 64 \<Longrightarrow> b64dec (b64enc n) = Some n"
  unfolding b64dec_def b64enc_def
  by (rule pos_of_nth) (simp_all add: distinct_b64chars length_b64chars)

lemma b64enc_in: "n < 64 \<Longrightarrow> b64enc n \<in> set b64chars"
  unfolding b64enc_def by (simp add: length_b64chars)

lemma b64chars_plain: "c \<in> set b64chars \<Longrightarrow> c \<noteq> CHR ''='' \<and> \<not> isSpace c \<and> c \<noteq> CHR 0x27"
  by (auto simp: b64chars_def isSpace_def)


lemma sextets:
  fixes a b c :: nat
  assumes "a < 256" "b < 256" "c < 256"
  shows "a div 4 < 64" "(a mod 4) * 16 + b div 16 < 64" "(b mod 16) * 4 + c div 64 < 64"
    "c mod 64 < 64" "(a mod 4) * 16 < 64" "(b mod 16) * 4 < 64"
  using assms by simp_all

lemma octet1:
  fixes a b :: nat
  assumes "b < 256"
  shows "(a div 4) * 4 + ((a mod 4) * 16 + b div 16) div 16 = a"
proof -
  from assms have "b div 16 < 16" by simp
  then have "((a mod 4) * 16 + b div 16) div 16 = a mod 4" by simp
  then show ?thesis by simp
qed

lemma octet2:
  fixes a b c :: nat
  assumes "b < 256" "c < 256"
  shows "(((a mod 4) * 16 + b div 16) mod 16) * 16 + ((b mod 16) * 4 + c div 64) div 4 = b"
proof -
  from assms have "b div 16 < 16" "c div 64 < 4" by simp_all
  then have "((a mod 4) * 16 + b div 16) mod 16 = b div 16"
    and "((b mod 16) * 4 + c div 64) div 4 = b mod 16" by simp_all
  then show ?thesis by simp
qed

lemma octet3:
  fixes b c :: nat
  assumes "c < 256"
  shows "(((b mod 16) * 4 + c div 64) mod 4) * 64 + c mod 64 = c"
proof -
  from assms have "c div 64 < 4" by simp
  then have "((b mod 16) * 4 + c div 64) mod 4 = c div 64" by simp
  then show ?thesis by simp
qed

lemma octet1': "(a div 4) * 4 + ((a mod 4) * 16) div 16 = (a::nat)"
  by simp

lemma octet2':
  fixes a b :: nat
  assumes "b < 256"
  shows "(((a mod 4) * 16 + b div 16) mod 16) * 16 + ((b mod 16) * 4) div 4 = b"
proof -
  from assms have "b div 16 < 16" by simp
  then have "((a mod 4) * 16 + b div 16) mod 16 = b div 16" by simp
  then show ?thesis by simp
qed

lemma b64enc_not_pad: "n < 64 \<Longrightarrow> b64enc n \<noteq> CHR ''=''"
  using b64enc_in b64chars_plain by blast

lemma encode_bytes_Nil: "encode_bytes bs = [] \<longleftrightarrow> bs = []"
  by (induction bs rule: encode_bytes.induct) simp_all

lemma dec_enc_quad:
  fixes a b c :: nat
  assumes "a < 256" "b < 256" "c < 256"
  shows "b64dec (b64enc (a div 4)) = Some (a div 4)"
    and "b64dec (b64enc ((a mod 4) * 16 + b div 16)) = Some ((a mod 4) * 16 + b div 16)"
    and "b64dec (b64enc ((b mod 16) * 4 + c div 64)) = Some ((b mod 16) * 4 + c div 64)"
    and "b64dec (b64enc (c mod 64)) = Some (c mod 64)"
    and "b64dec (b64enc ((a mod 4) * 16)) = Some ((a mod 4) * 16)"
    and "b64dec (b64enc ((b mod 16) * 4)) = Some ((b mod 16) * 4)"
    and "b64enc ((b mod 16) * 4 + c div 64) \<noteq> CHR ''=''"
    and "b64enc (c mod 64) \<noteq> CHR ''=''"
    and "b64enc ((b mod 16) * 4) \<noteq> CHR ''=''"
  using assms by (simp_all add: b64dec_enc b64enc_not_pad)

lemma decode_encode_bytes:
  "\<forall>b \<in> set bs. b < 256 \<Longrightarrow> decode_groups (encode_bytes bs) = Some bs"
proof (induction bs rule: encode_bytes.induct)
  case 1
  then show ?case by simp
next
  case (2 a)
  then have "a < 256" by simp
  from dec_enc_quad [OF this this this] show ?case
    by (simp add: octet1')
next
  case (3 a b)
  then have lt: "a < 256" "b < 256" by simp_all
  from dec_enc_quad [OF lt lt(2)] lt show ?case
    by (simp add: octet1 octet2')
next
  case (4 a b c rest)
  then have lt: "a < 256" "b < 256" "c < 256" and IH: "decode_groups (encode_bytes rest) = Some rest"
    by simp_all
  note q = dec_enc_quad [OF lt]
  show ?case
  proof (cases "encode_bytes rest")
    case Nil
    then have "rest = []" by (simp add: encode_bytes_Nil)
    with lt q Nil show ?thesis
      by (simp add: octet1 octet2 octet3)
  next
    case (Cons e es)
    with lt q IH show ?thesis
      by (simp add: octet1 octet2 octet3)
  qed
qed

lemma encode_bytes_chars:
  "\<forall>b \<in> set bs. b < 256 \<Longrightarrow> c \<in> set (encode_bytes bs) \<Longrightarrow> c \<in> set b64chars \<or> c = CHR ''=''"
proof (induction bs rule: encode_bytes.induct)
  case 1
  then show ?case by simp
next
  case (2 a)
  then have "a < 256" by simp
  then have "a div 4 < 64" "(a mod 4) * 16 < 64" by simp_all
  with 2 b64enc_in show ?case by auto
next
  case (3 a b)
  then have "a < 256" "b < 256" by simp_all
  then have "a div 4 < 64" "(a mod 4) * 16 + b div 16 < 64" "(b mod 16) * 4 < 64" by simp_all
  with 3 b64enc_in show ?case by auto
next
  case (4 a b c rest)
  then have "a < 256" "b < 256" "c < 256" by simp_all
  then have "a div 4 < 64" "(a mod 4) * 16 + b div 16 < 64" "(b mod 16) * 4 + c div 64 < 64" "c mod 64 < 64"
    by simp_all
  with 4 b64enc_in show ?case by auto
qed

lemma EncodeToString_chars:
  assumes "c \<in> set (EncodeToString s)"
  shows "\<not> isSpace c \<and> c \<noteq> CHR 0x27"
proof -
  have "\<forall>b \<in> set (map of_char s :: nat list). b < 256"
    by (simp add: nat_of_char_less_256)
  with assms have "c \<in> set b64chars \<or> c = CHR ''=''"
    unfolding EncodeToString_def by (rule encode_bytes_chars [rotated])
  then show ?thesis
    using b64chars_plain by (auto simp: isSpace_def)
qed

lemma filter_id_conv: "(\<forall>c \<in> set xs. P c) \<Longrightarrow> filter P xs = xs"
  by (induction xs) auto

lemma DecodeString_EncodeToString: "DecodeString (EncodeToString s) = Some s"
proof -
  have "filter (\<lambda>c. c \<noteq> CHR 0x0D \<and> c \<noteq> CHR 0x0A) (EncodeToString s) = EncodeToString s"
    using EncodeToString_chars by (intro filter_id_conv) (auto simp: isSpace_def)
  moreover have "decode_groups (encode_bytes (map of_char s)) = Some (map of_char s)"
    by (rule decode_encode_bytes) (simp add: nat_of_char_less_256)
  ultimately show ?thesis
    by (simp add: DecodeString_def EncodeToString_def comp_def)
qed

section \<open>The remote target, as the client's commands see it\<close>

text \<open>
  The commands are run by a shell on the remote target, which is not part of the
  repository. To say what a sequence of operations does to a remote file the model needs
  a remote target that answers: a store of files, the terminal sessions of tmux, and the
  list of the commands received so far. It reads the command lines that \<^const>\<open>ViewFile\<close>,
  \<^const>\<open>EditFile\<close> and \<^verbatim>\<open>ListSessions\<close> send, the way a POSIX shell and the tools
  named in them do, and answers anything else with exit code 127.
\<close>

definition strip_prefix :: "string \<Rightarrow> string \<Rightarrow> string option" where
  "strip_prefix p s = (if HasPrefix s p then Some (drop (length p) s) else None)"

text \<open>
  One shell word: adjacent pieces in single quotes (taken literally) or in double quotes
  (supported when they hold no backslash, dollar or backquote), up to the first character
  that opens neither. The result is the word's value and the rest of the line.
\<close>

function shell_word :: "string \<Rightarrow> (string \<times> string) option" where
  "shell_word s =
     (case s of
        [] \<Rightarrow> Some ([], [])
      | c # cs \<Rightarrow>
          if c = CHR 0x27 then
            (case dropWhile (\<lambda>x. x \<noteq> CHR 0x27) cs of
               [] \<Rightarrow> None
             | q # rest \<Rightarrow>
                 map_option (\<lambda>(v, r). (takeWhile (\<lambda>x. x \<noteq> CHR 0x27) cs @ v, r)) (shell_word rest))
          else if c = CHR ''\"'' then
            (case dropWhile (\<lambda>x. x \<noteq> CHR ''\"'') cs of
               [] \<Rightarrow> None
             | q # rest \<Rightarrow>
                 if \<exists>x \<in> set (takeWhile (\<lambda>x. x \<noteq> CHR ''\"'') cs). x \<in> {CHR 0x5C, CHR ''$'', CHR 0x60}
                 then None
                 else map_option (\<lambda>(v, r). (takeWhile (\<lambda>x. x \<noteq> CHR ''\"'') cs @ v, r)) (shell_word rest))
          else Some ([], s))"
  by pat_completeness auto
termination
proof (relation "measure length")
  show "wf (measure length)" by simp
next
  fix s :: string and c cs q rest
  assume "s = c # cs" "dropWhile (\<lambda>x. x \<noteq> CHR 0x27) cs = q # rest"
  then have "length (q # rest) \<le> length cs"
    by (metis length_dropWhile_le)
  with \<open>s = c # cs\<close> show "(rest, s) \<in> measure length" by simp
next
  fix s :: string and c cs q rest
  assume "s = c # cs" "dropWhile (\<lambda>x. x \<noteq> CHR ''\"'') cs = q # rest"
  then have "length (q # rest) \<le> length cs"
    by (metis length_dropWhile_le)
  with \<open>s = c # cs\<close> show "(rest, s) \<in> measure length" by simp
qed

declare shell_word.simps [simp del]

text \<open>GNU \<^verbatim>\<open>base64\<close> prints its output in lines of 76 characters.\<close>

function wrap76 :: "string \<Rightarrow> string" where
  "wrap76 s =
     (if s = [] then []
      else if length s \<le> 76 then s @ [CHR 0x0A]
      else take 76 s @ [CHR 0x0A] @ wrap76 (drop 76 s))"
  by pat_completeness auto
termination
  by (relation "measure length") auto

declare wrap76.simps [simp del]

text \<open>
  \<^verbatim>\<open>awk '{print NR". "$0}'\<close>: every line of the file with its number; a last line
  without a line feed counts as a line.
\<close>

definition lines_of :: "string \<Rightarrow> string list" where
  "lines_of c = (let ls = Split_byte c (CHR 0x0A) in if last ls = [] then butlast ls else ls)"

definition awk_number :: "string list \<Rightarrow> string" where
  "awk_number ls =
     concat (map (\<lambda>(i, l). show_nat i @ ''. '' @ l @ [CHR 0x0A]) (zip [1 ..< Suc (length ls)] ls))"

record remote =
  files :: "string \<rightharpoonup> string"
  sessions :: "(string \<times> nat \<times> nat) list"
  dispatched :: "string list"

definition answer :: "string \<Rightarrow> string \<Rightarrow> int \<Rightarrow> exec_result" where
  "answer out diag code = \<lparr>stdout = out, stderr = diag, exitCode = code, err = None\<rparr>"

definition parse_read :: "string \<Rightarrow> string option" where
  "parse_read cmd =
     (case strip_prefix ''base64 < '' cmd of
        None \<Rightarrow> None
      | Some rest \<Rightarrow> (case shell_word rest of Some (p, []) \<Rightarrow> Some p | _ \<Rightarrow> None))"

definition parse_write :: "string \<Rightarrow> (string \<times> string) option" where
  "parse_write cmd =
     (case strip_prefix ''echo '' cmd of
        None \<Rightarrow> None
      | Some rest \<Rightarrow>
          (case shell_word rest of
             None \<Rightarrow> None
           | Some (b64, rest2) \<Rightarrow>
               (case strip_prefix '' | base64 -d > '' rest2 of
                  None \<Rightarrow> None
                | Some rest3 \<Rightarrow>
                    (case shell_word rest3 of Some (p, []) \<Rightarrow> Some (b64, p) | _ \<Rightarrow> None))))"

definition parse_view :: "string \<Rightarrow> string option" where
  "parse_view cmd =
     (case strip_prefix ''awk '' cmd of
        None \<Rightarrow> None
      | Some rest \<Rightarrow>
          (case shell_word rest of
             None \<Rightarrow> None
           | Some (prog, rest2) \<Rightarrow>
               if prog \<noteq> ''{print NR\". \"$0}'' then None
               else (case strip_prefix '' '' rest2 of
                       None \<Rightarrow> None
                     | Some rest3 \<Rightarrow>
                         (case shell_word rest3 of Some (p, []) \<Rightarrow> Some p | _ \<Rightarrow> None))))"

definition ListSessions_cmd :: string where
  "ListSessions_cmd =
     ''tmux list-sessions -F '#{session_name} #{session_created} #{session_activity}' 2>/dev/null | grep '^''
       @ tmuxPrefix @ [CHR 0x27]"

text \<open>
  The remote shell and tmux, as far as the list command needs them. The shell sets
  \<^verbatim>\<open>PATH\<close> from a double-quoted value and goes on after \<^verbatim>\<open>&&\<close>. \<^verbatim>\<open>tmux list-sessions -F\<close>
  prints one line for each session, the format with its variables replaced
  (\<^verbatim>\<open>session_name\<close>, \<^verbatim>\<open>session_created\<close>, \<^verbatim>\<open>session_activity\<close>; a format with another
  \<^verbatim>\<open>#\<close> is outside the model). \<^verbatim>\<open>grep\<close> keeps the lines that match its pattern: a
  pattern of \<^verbatim>\<open>^\<close> and plain text keeps the lines that begin with the text, a pattern of
  plain text the lines that hold it (a pattern with another special character of a
  regular expression is outside the model). The exit code of a pipeline is that of
  \<^verbatim>\<open>grep\<close>, 1 when it kept nothing. Format and pattern are read from the command.
\<close>

definition skip_PATH :: "string \<Rightarrow> string option" where
  "skip_PATH cmd =
     (case strip_prefix ''PATH=\"'' cmd of
        None \<Rightarrow> None
      | Some rest \<Rightarrow>
          (case dropWhile (\<lambda>x. x \<noteq> CHR ''\"'') rest of
             [] \<Rightarrow> None
           | q # rest2 \<Rightarrow> strip_prefix '' && '' rest2))"

definition parse_list :: "string \<Rightarrow> (string \<times> string option) option" where
  "parse_list cmd =
     (case strip_prefix ''tmux list-sessions -F '' cmd of
        None \<Rightarrow> None
      | Some rest \<Rightarrow>
          (case shell_word rest of
             None \<Rightarrow> None
           | Some (fmt, rest2) \<Rightarrow>
               (case strip_prefix '' 2>/dev/null'' rest2 of
                  None \<Rightarrow> None
                | Some rest3 \<Rightarrow>
                    if rest3 = [] then Some (fmt, None)
                    else
                      (case strip_prefix '' | grep '' rest3 of
                         None \<Rightarrow> None
                       | Some rest4 \<Rightarrow>
                           (case shell_word rest4 of
                              Some (pat, []) \<Rightarrow> Some (fmt, Some pat)
                            | _ \<Rightarrow> None)))))"

fun tmux_format :: "string \<Rightarrow> string \<times> nat \<times> nat \<Rightarrow> string option" where
  "tmux_format [] s = Some []"
| "tmux_format (c # cs) s =
     (if c \<noteq> CHR ''#'' then map_option (\<lambda>t. c # t) (tmux_format cs s)
      else if HasPrefix cs ''{session_name}'' then
        map_option (\<lambda>t. fst s @ t) (tmux_format (drop 14 cs) s)
      else if HasPrefix cs ''{session_created}'' then
        map_option (\<lambda>t. show_nat (fst (snd s)) @ t) (tmux_format (drop 17 cs) s)
      else if HasPrefix cs ''{session_activity}'' then
        map_option (\<lambda>t. show_nat (snd (snd s)) @ t) (tmux_format (drop 18 cs) s)
      else None)"

definition regex_plain :: "string \<Rightarrow> bool" where
  "regex_plain p = list_all (\<lambda>c. c \<notin> set (''.[]*^$'' @ [CHR 0x5C])) p"

definition grep_lines :: "string \<Rightarrow> string list \<Rightarrow> string list option" where
  "grep_lines pat ls =
     (if pat \<noteq> [] \<and> hd pat = CHR ''^'' then
        (if regex_plain (tl pat) then Some (filter (\<lambda>l. HasPrefix l (tl pat)) ls) else None)
      else if regex_plain pat then Some (filter (\<lambda>l. 0 \<le> Index l pat) ls)
      else None)"

definition unlines :: "string list \<Rightarrow> string" where
  "unlines ls = concat (map (\<lambda>l. l @ [CHR 0x0A]) ls)"

definition list_sessions :: "string \<Rightarrow> string option \<Rightarrow> (string \<times> nat \<times> nat) list \<Rightarrow> exec_result" where
  "list_sessions fmt filt ss =
     (case those (map (tmux_format fmt) ss) of
        None \<Rightarrow> answer [] ''tmux: format outside the model'' 1
      | Some ls \<Rightarrow>
          (case filt of
             None \<Rightarrow> answer (unlines ls) [] (if ls = [] then 1 else 0)
           | Some pat \<Rightarrow>
               (case grep_lines pat ls of
                  None \<Rightarrow> answer [] ''grep: pattern outside the model'' 2
                | Some kept \<Rightarrow> answer (unlines kept) [] (if kept = [] then 1 else 0))))"

definition remote_exec :: "remote transport" where
  "remote_exec cmd r =
     (let r' = r\<lparr>dispatched := dispatched r @ [cmd]\<rparr> in
      case parse_read cmd of
        Some p \<Rightarrow>
          (case files r p of
             None \<Rightarrow> (answer [] (''bash: '' @ p @ '': No such file or directory'') 1, r')
           | Some c \<Rightarrow> (answer (wrap76 (EncodeToString c)) [] 0, r'))
      | None \<Rightarrow>
          (case parse_write cmd of
             Some (b64, p) \<Rightarrow>
               (case DecodeString b64 of
                  None \<Rightarrow> (answer [] ''base64: invalid input'' 1, r'\<lparr>files := (files r)(p \<mapsto> [])\<rparr>)
                | Some c \<Rightarrow> (answer [] [] 0, r'\<lparr>files := (files r)(p \<mapsto> c)\<rparr>))
           | None \<Rightarrow>
               (case parse_view cmd of
                  Some p \<Rightarrow>
                    (case files r p of
                       None \<Rightarrow> (answer [] (''awk: cannot open '' @ p) 2, r')
                     | Some c \<Rightarrow> (answer (awk_number (lines_of c)) [] 0, r'))
                | None \<Rightarrow>
                    (case Option.bind (skip_PATH cmd) parse_list of
                       Some (fmt, filt) \<Rightarrow> (list_sessions fmt filt (sessions r), r')
                     | None \<Rightarrow> (answer [] ''command not found'' 127, r')))))"

definition ListSessions :: "'w transport \<Rightarrow> 'w \<Rightarrow> (string + string) \<times> 'w" where
  "ListSessions Exec w =
     (let (r, w1) = execTmux Exec ListSessions_cmd w in
      case err r of
        Some e \<Rightarrow> (Inl (''list sessions: '' @ e), w1)
      | None \<Rightarrow>
          if exitCode r > 1 then
            (Inl (''list sessions failed with exit code '' @ fmt_d (exitCode r)), w1)
          else (Inr (stdout r), w1))"

subsection \<open>The shell reads a quoted value back unchanged\<close>

lemma shell_word_Nil: "shell_word [] = Some ([], [])"
  by (subst shell_word.simps) simp

lemma shell_word_plain:
  "c \<noteq> CHR 0x27 \<Longrightarrow> c \<noteq> CHR ''\"'' \<Longrightarrow> shell_word (c # cs) = Some ([], c # cs)"
  by (subst shell_word.simps) simp

lemma shell_word_squote:
  "shell_word (CHR 0x27 # cs) =
     (case dropWhile (\<lambda>x. x \<noteq> CHR 0x27) cs of
        [] \<Rightarrow> None
      | q # rest \<Rightarrow>
          map_option (\<lambda>(v, r). (takeWhile (\<lambda>x. x \<noteq> CHR 0x27) cs @ v, r)) (shell_word rest))"
  by (subst shell_word.simps) simp

lemma shell_word_dquote_one:
  "shell_word (CHR ''\"'' # CHR 0x27 # CHR ''\"'' # rest) =
     map_option (\<lambda>(v, r). (CHR 0x27 # v, r)) (shell_word rest)"
  by (subst shell_word.simps) simp

lemma shell_word_rest:
  assumes "rest = [] \<or> (hd rest \<noteq> CHR 0x27 \<and> hd rest \<noteq> CHR ''\"'')"
  shows "shell_word rest = Some ([], rest)"
proof (cases rest)
  case Nil
  then show ?thesis by (simp add: shell_word_Nil)
next
  case (Cons c cs)
  with assms show ?thesis by (simp add: shell_word_plain)
qed

lemma ReplaceAll_byte_Nil: "ReplaceAll_byte [] old new = []"
  by (simp add: ReplaceAll_byte_def)

lemma ReplaceAll_byte_Cons:
  "ReplaceAll_byte (c # cs) old new = (if c = old then new else [c]) @ ReplaceAll_byte cs old new"
  by (simp add: ReplaceAll_byte_def)

lemma shell_word_quoted_aux:
  assumes "rest = [] \<or> (hd rest \<noteq> CHR 0x27 \<and> hd rest \<noteq> CHR ''\"'')"
  shows "shell_word (CHR 0x27 # ReplaceAll_byte s (CHR 0x27) [CHR 0x27, CHR ''\"'', CHR 0x27, CHR ''\"'', CHR 0x27] @ CHR 0x27 # rest) = Some (s, rest)"
proof (induction s)
  case Nil
  show ?case
    by (simp add: shell_word_squote ReplaceAll_byte_Nil shell_word_rest [OF assms])
next
  case (Cons c cs)
  let ?q = "ReplaceAll_byte cs (CHR 0x27) [CHR 0x27, CHR ''\"'', CHR 0x27, CHR ''\"'', CHR 0x27]"
  show ?case
  proof (cases "c = CHR 0x27")
    case True
    have "shell_word (CHR 0x27 # CHR 0x27 # CHR ''\"'' # CHR 0x27 # CHR ''\"'' # CHR 0x27 # ?q @ CHR 0x27 # rest)
        = map_option (\<lambda>(v, r). ([] @ v, r))
            (shell_word (CHR ''\"'' # CHR 0x27 # CHR ''\"'' # CHR 0x27 # ?q @ CHR 0x27 # rest))"
      by (subst shell_word_squote) simp
    also have "\<dots> = Some (CHR 0x27 # cs, rest)"
      by (simp add: shell_word_dquote_one Cons.IH)
    finally show ?thesis using True by (simp add: ReplaceAll_byte_Cons)
  next
    case False
    from Cons.IH obtain q r where
      d: "dropWhile (\<lambda>x. x \<noteq> CHR 0x27) (?q @ CHR 0x27 # rest) = q # r"
      and m: "map_option (\<lambda>(v, r). (takeWhile (\<lambda>x. x \<noteq> CHR 0x27) (?q @ CHR 0x27 # rest) @ v, r)) (shell_word r) = Some (cs, rest)"
      unfolding shell_word_squote by (auto split: list.splits)
    from m obtain v where sw: "shell_word r = Some (v, rest)"
      and tv: "takeWhile (\<lambda>x. x \<noteq> CHR 0x27) (?q @ CHR 0x27 # rest) @ v = cs"
      by (cases "shell_word r") auto
    have "shell_word (CHR 0x27 # c # ?q @ CHR 0x27 # rest)
        = map_option (\<lambda>(v, r). ((c # takeWhile (\<lambda>x. x \<noteq> CHR 0x27) (?q @ CHR 0x27 # rest)) @ v, r)) (shell_word r)"
      using False d by (subst shell_word_squote) simp
    also have "\<dots> = Some (c # cs, rest)"
      using sw tv by simp
    finally show ?thesis using False by (simp add: ReplaceAll_byte_Cons)
  qed
qed

lemma shell_word_shellQuote:
  assumes "rest = [] \<or> (hd rest \<noteq> CHR 0x27 \<and> hd rest \<noteq> CHR ''\"'')"
  shows "shell_word (shellQuote s @ rest) = Some (s, rest)"
  using shell_word_quoted_aux [OF assms] by (simp add: shellQuote_def)

subsection \<open>What the remote target answers to the file commands\<close>

lemma strip_prefix_append: "strip_prefix p (p @ s) = Some s"
  by (simp add: strip_prefix_def HasPrefix_def)

lemma shellQuote_hd: "shellQuote s = CHR 0x27 # tl (shellQuote s)"
  by (simp add: shellQuote_def)

lemma parse_read_cmd: "parse_read (''base64 < '' @ shellQuote p) = Some p"
proof -
  have "shell_word (shellQuote p @ []) = Some (p, [])"
    by (rule shell_word_shellQuote) simp
  then show ?thesis
    by (simp add: parse_read_def strip_prefix_append del: append.simps)
qed

lemma parse_write_cmd:
  "parse_write (''echo '' @ shellQuote b @ '' | base64 -d > '' @ shellQuote p) = Some (b, p)"
proof -
  have 1: "shell_word (shellQuote b @ '' | base64 -d > '' @ shellQuote p) = Some (b, '' | base64 -d > '' @ shellQuote p)"
    by (rule shell_word_shellQuote) simp
  have 2: "shell_word (shellQuote p @ []) = Some (p, [])"
    by (rule shell_word_shellQuote) simp
  from 1 2 show ?thesis
    by (simp add: parse_write_def strip_prefix_append del: append.simps)
qed

lemma parse_read_write: "parse_read (''echo '' @ x) = None"
  by (simp add: parse_read_def strip_prefix_def HasPrefix_def)

lemma parse_view_cmd: "parse_view (ViewFile_cmd p []) = Some p"
proof -
  have 1: "shell_word (CHR 0x27 # ''{print NR\". \"$0}'' @ CHR 0x27 # '' '' @ shellQuote p)
      = Some (''{print NR\". \"$0}'', '' '' @ shellQuote p)"
    by (subst shell_word_squote) (simp add: shell_word_plain)
  have 2: "shell_word (shellQuote p @ []) = Some (p, [])"
    by (rule shell_word_shellQuote) simp
  have "ViewFile_cmd p [] = ''awk '' @ (CHR 0x27 # ''{print NR\". \"$0}'' @ CHR 0x27 # '' '' @ shellQuote p)"
    by (simp add: ViewFile_cmd_def awkPrint_def)
  with 1 2 show ?thesis
    by (simp add: parse_view_def strip_prefix_append del: append.simps)
qed

lemma parse_read_view: "parse_read (ViewFile_cmd p []) = None"
  by (simp add: parse_read_def strip_prefix_def HasPrefix_def ViewFile_cmd_def)

lemma parse_write_view: "parse_write (ViewFile_cmd p []) = None"
  by (simp add: parse_write_def strip_prefix_def HasPrefix_def ViewFile_cmd_def)


lemma filter_takeWhile_none:
  "(\<forall>c \<in> set xs. P c \<longrightarrow> \<not> Q c) \<Longrightarrow> filter Q (takeWhile P xs) = []"
  by (induction xs) auto

lemma filter_dropWhile_same:
  assumes "\<forall>c \<in> set xs. P c \<longrightarrow> \<not> Q c"
  shows "filter Q (dropWhile P xs) = filter Q xs"
proof -
  have "filter Q xs = filter Q (takeWhile P xs @ dropWhile P xs)" by simp
  also have "\<dots> = filter Q (takeWhile P xs) @ filter Q (dropWhile P xs)" by (rule filter_append)
  finally show ?thesis using filter_takeWhile_none [OF assms] by simp
qed

lemma filter_TrimSpace:
  assumes "\<forall>c \<in> set xs. isSpace c \<longrightarrow> \<not> Q c"
  shows "filter Q (TrimSpace xs) = filter Q xs"
proof -
  let ?y = "dropWhile isSpace xs"
  have sub: "set ?y \<subseteq> set xs" by (rule set_dropWhileD [THEN subsetI])
  then have a: "\<forall>c \<in> set (rev ?y). isSpace c \<longrightarrow> \<not> Q c" using assms by auto
  have "filter Q (TrimSpace xs) = rev (filter Q (dropWhile isSpace (rev ?y)))"
    by (simp add: TrimSpace_def rev_filter)
  also have "\<dots> = rev (filter Q (rev ?y))"
    using filter_dropWhile_same [OF a] by simp
  also have "\<dots> = filter Q ?y" by (simp add: rev_filter)
  also have "\<dots> = filter Q xs" by (rule filter_dropWhile_same [OF assms])
  finally show ?thesis .
qed

lemma filter_wrap76:
  "\<forall>c \<in> set e. c \<noteq> CHR 0x0D \<and> c \<noteq> CHR 0x0A \<Longrightarrow>
   filter (\<lambda>c. c \<noteq> CHR 0x0D \<and> c \<noteq> CHR 0x0A) (wrap76 e) = e"
proof (induction e rule: wrap76.induct)
  case (1 s)
  show ?case
  proof (cases "s = [] \<or> length s \<le> 76")
    case True
    with 1 show ?thesis
      by (subst wrap76.simps) (auto simp: filter_id_conv)
  next
    case False
    have "set (drop 76 s) \<subseteq> set s" by (rule set_drop_subset)
    with 1 False have IH: "filter (\<lambda>c. c \<noteq> CHR 0x0D \<and> c \<noteq> CHR 0x0A) (wrap76 (drop 76 s)) = drop 76 s"
      by auto
    have "set (take 76 s) \<subseteq> set s" by (rule set_take_subset)
    with 1 have t: "filter (\<lambda>c. c \<noteq> CHR 0x0D \<and> c \<noteq> CHR 0x0A) (take 76 s) = take 76 s"
      by (intro filter_id_conv) auto
    from False IH t show ?thesis
      by (subst wrap76.simps) simp
  qed
qed

lemma set_wrap76: "c \<in> set (wrap76 e) \<Longrightarrow> c \<in> set e \<or> c = CHR 0x0A"
proof (induction e rule: wrap76.induct)
  case (1 s)
  show ?case
  proof (cases "s = [] \<or> length s \<le> 76")
    case True
    with 1(2) show ?thesis
      by (subst (asm) wrap76.simps) (auto split: if_splits)
  next
    case False
    with 1(2) have "c \<in> set (take 76 s) \<or> c = CHR 0x0A \<or> c \<in> set (wrap76 (drop 76 s))"
      by (subst (asm) wrap76.simps) auto
    with 1(1) False show ?thesis
      by (auto dest: in_set_takeD in_set_dropD)
  qed
qed

lemma DecodeString_remote_read:
  "DecodeString (TrimSpace (wrap76 (EncodeToString c))) = Some c"
proof -
  let ?Q = "\<lambda>c. c \<noteq> CHR 0x0D \<and> c \<noteq> CHR 0x0A"
  have plain: "\<forall>x \<in> set (EncodeToString c). ?Q x"
    using EncodeToString_chars by (auto simp: isSpace_def)
  have "\<forall>x \<in> set (wrap76 (EncodeToString c)). isSpace x \<longrightarrow> \<not> ?Q x"
    using set_wrap76 EncodeToString_chars by blast
  then have "filter ?Q (TrimSpace (wrap76 (EncodeToString c))) = filter ?Q (wrap76 (EncodeToString c))"
    by (rule filter_TrimSpace)
  also have "\<dots> = EncodeToString c"
    by (rule filter_wrap76 [OF plain])
  also have "\<dots> = filter ?Q (EncodeToString c)"
    using plain by (simp add: filter_id_conv)
  finally have "DecodeString (TrimSpace (wrap76 (EncodeToString c))) = DecodeString (EncodeToString c)"
    by (simp add: DecodeString_def)
  then show ?thesis by (simp add: DecodeString_EncodeToString)
qed


lemma Index_occurs:
  assumes "HasPrefix (drop k s) sub"
  shows "0 \<le> Index s sub"
proof (rule ccontr)
  assume "\<not> 0 \<le> Index s sub"
  then have "Index s sub < 0" by simp
  from Index_none [OF this] assms show False by blast
qed

lemma Count_occurs:
  assumes "HasPrefix (drop k s) sub"
  shows "1 \<le> Count s sub"
proof (cases "sub = []")
  case True
  then show ?thesis by (simp add: Count_def)
next
  case False
  from Index_occurs [OF assms] have "\<not> Index s sub < 0" by simp
  with False show ?thesis
    by (simp add: Count_def Count_loop.simps [of s sub] Let_def)
qed

lemma Count_middle: "1 \<le> Count (pre @ x @ post) x"
proof -
  have "HasPrefix (drop (length pre) (pre @ x @ post)) x"
    by (simp add: HasPrefix_def)
  then show ?thesis by (rule Count_occurs)
qed

lemma Count_pos_Index:
  assumes "sub \<noteq> []" "0 < Count s sub"
  shows "0 \<le> Index s sub"
proof (rule ccontr)
  assume "\<not> 0 \<le> Index s sub"
  then have "Index s sub < 0" by simp
  with assms(1) have "Count s sub = 0"
    by (simp add: Count_def Count_loop.simps [of s sub] Let_def)
  with assms(2) show False by simp
qed

lemma Replace1_split:
  assumes "0 < Count s old"
  shows "\<exists>pre post. s = pre @ old @ post \<and> Replace1 s old new = pre @ new @ post
           \<and> (\<forall>pre' post'. s = pre' @ old @ post' \<longrightarrow> length pre \<le> length pre')"
proof (cases "old = []")
  case True
  have "s = [] @ old @ s \<and> Replace1 s old new = [] @ new @ s"
    using True assms by (auto simp: Replace1_def Let_def)
  then show ?thesis by (metis list.size(3) zero_le)
next
  case False
  let ?i = "nat (Index s old)"
  from Count_pos_Index [OF False assms] have nn: "0 \<le> Index s old" .
  from Index_split [OF nn] have sp: "s = take ?i s @ old @ drop (?i + length old) s" .
  have rp: "Replace1 s old new = take ?i s @ new @ drop (?i + length old) s"
  proof (cases "old = new")
    case True
    with sp show ?thesis by (simp add: Replace1_def)
  next
    case False
    with \<open>old \<noteq> []\<close> assms show ?thesis by (simp add: Replace1_def Let_def)
  qed
  have first: "length (take ?i s) \<le> length pre'" if "s = pre' @ old @ post'" for pre' post'
  proof (rule ccontr)
    assume "\<not> length (take ?i s) \<le> length pre'"
    then have "length pre' < ?i" by simp
    from Index_first [OF nn this] that show False
      by (simp add: HasPrefix_def)
  qed
  from sp rp first show ?thesis by blast
qed


lemma remote_exec_read:
  "files r p = Some c \<Longrightarrow>
   remote_exec (''base64 < '' @ shellQuote p) r =
     (answer (wrap76 (EncodeToString c)) [] 0, r\<lparr>dispatched := dispatched r @ [''base64 < '' @ shellQuote p]\<rparr>)"
  by (simp add: remote_exec_def parse_read_cmd del: append.simps)

lemma remote_exec_write:
  "remote_exec (''echo '' @ shellQuote (EncodeToString c) @ '' | base64 -d > '' @ shellQuote p) r =
     (answer [] [] 0,
      r\<lparr>dispatched := dispatched r @ [''echo '' @ shellQuote (EncodeToString c) @ '' | base64 -d > '' @ shellQuote p],
        files := (files r)(p \<mapsto> c)\<rparr>)"
  by (simp add: remote_exec_def parse_read_write parse_write_cmd DecodeString_EncodeToString
      del: append.simps)

lemma remote_exec_view:
  "files r p = Some c \<Longrightarrow>
   remote_exec (ViewFile_cmd p []) r =
     (answer (awk_number (lines_of c)) [] 0, r\<lparr>dispatched := dispatched r @ [ViewFile_cmd p []]\<rparr>)"
  by (simp add: remote_exec_def parse_read_view parse_write_view parse_view_cmd)

lemma EditFile_remote:
  assumes "files r path = Some content"
  shows "EditFile remote_exec path old new r =
     (let r1 = r\<lparr>dispatched := dispatched r @ [''base64 < '' @ shellQuote path]\<rparr>;
          n = Count content old
      in if n = 0 then (Some ''old_str not found in file'', r1)
         else if n > 1 then
           (Some (''old_str found '' @ fmt_d (int n) @ '' times, must be unique''), r1)
         else (None, r1\<lparr>dispatched := dispatched r1 @
                 [''echo '' @ shellQuote (EncodeToString (Replace1 content old new))
                    @ '' | base64 -d > '' @ shellQuote path],
               files := (files r)(path \<mapsto> Replace1 content old new)\<rparr>))"
  by (simp add: EditFile_def remote_exec_read [OF assms] remote_exec_write answer_def
      DecodeString_remote_read Let_def del: append.simps)

lemma ViewFile_remote:
  assumes "files r path = Some content"
  shows "ViewFile remote_exec path [] r =
     (Inr (awk_number (lines_of content)), r\<lparr>dispatched := dispatched r @ [ViewFile_cmd path []]\<rparr>)"
  by (simp add: ViewFile_def remote_exec_view [OF assms] answer_def)

section \<open>Editing a remote file\<close>

definition remote_hello :: remote where
  "remote_hello = \<lparr>files = [''/f'' \<mapsto> ''hello''], sessions = [], dispatched = []\<rparr>"

definition remote_aaa :: remote where
  "remote_aaa = \<lparr>files = [''/f'' \<mapsto> ''aaa''], sessions = [], dispatched = []\<rparr>"

text \<open>
  The rune count on well-formed and on broken UTF-8: \<^verbatim>\<open>U+00E9\<close> and \<^verbatim>\<open>U+20AC\<close> are one
  rune each, a truncated sequence and an encoded surrogate count byte by byte.
\<close>

lemma RuneCountInString_examples:
  "RuneCountInString ''abc'' = 3"
  "RuneCountInString [CHR 0xC3, CHR 0xA9] = 1"
  "RuneCountInString [CHR 0xE2, CHR 0x82, CHR 0xAC] = 1"
  "RuneCountInString [CHR 0xF0, CHR 0x9F, CHR 0x98, CHR 0x80, CHR ''a''] = 2"
  "RuneCountInString [CHR 0xE2, CHR 0x82] = 2"
  "RuneCountInString [CHR 0xED, CHR 0xA0, CHR 0x80] = 3"
  "Count [CHR 0xC3, CHR 0xA9] [] = 2"
  by code_simp+

text \<open>
  What \<^const>\<open>Count\<close> counts, in terms of the places where \<open>old\<close> occurs: it is zero
  exactly when \<open>old\<close> occurs nowhere, and for a non-empty \<open>old\<close> it is two or more
  exactly when two occurrences lie side by side without overlap.
\<close>

lemma Count_loop_some:
  "sub \<noteq> [] \<Longrightarrow> 0 \<le> Index s sub \<Longrightarrow>
   Count_loop s sub = Suc (Count_loop (drop (nat (Index s sub) + length sub) s) sub)"
  by (simp add: Count_loop.simps [of s sub] Let_def)

lemma Count_zero_iff: "Count content old = 0 \<longleftrightarrow> (\<forall>pre post. content \<noteq> pre @ old @ post)"
proof
  assume z: "Count content old = 0"
  show "\<forall>pre post. content \<noteq> pre @ old @ post"
  proof (intro allI notI)
    fix pre post assume "content = pre @ old @ post"
    with Count_middle [of pre old post] z show False by simp
  qed
next
  assume no: "\<forall>pre post. content \<noteq> pre @ old @ post"
  show "Count content old = 0"
  proof (rule ccontr)
    assume "Count content old \<noteq> 0"
    then have "0 < Count content old" by simp
    from Replace1_split [OF this, of old] no show False by blast
  qed
qed

lemma Count_two_iff:
  assumes ne: "old \<noteq> []"
  shows "2 \<le> Count content old \<longleftrightarrow> (\<exists>a b c. content = a @ old @ b @ old @ c)"
proof
  assume two: "2 \<le> Count content old"
  let ?i = "nat (Index content old)"
  let ?rest = "drop (?i + length old) content"
  from two ne have "0 < Count content old" by simp
  from Count_pos_Index [OF ne this] have nn: "0 \<le> Index content old" .
  from two ne Count_loop_some [OF ne nn] have "0 < Count ?rest old"
    by (simp add: Count_def)
  from Count_pos_Index [OF ne this] have nn2: "0 \<le> Index ?rest old" .
  from Index_split [OF nn] have "content = take ?i content @ old @ ?rest" .
  moreover from Index_split [OF nn2] obtain b c where "?rest = b @ old @ c" by blast
  ultimately have "content = take ?i content @ old @ b @ old @ c" by simp
  then show "\<exists>a b c. content = a @ old @ b @ old @ c" by blast
next
  assume "\<exists>a b c. content = a @ old @ b @ old @ c"
  then obtain a b c where sp: "content = a @ old @ b @ old @ c" by blast
  let ?i = "nat (Index content old)"
  let ?rest = "drop (?i + length old) content"
  have "HasPrefix (drop (length a) content) old"
    by (simp add: sp HasPrefix_def)
  from Index_occurs [OF this] have nn: "0 \<le> Index content old" .
  have le: "?i \<le> length a"
  proof (rule ccontr)
    assume "\<not> ?i \<le> length a"
    then have "length a < ?i" by simp
    from Index_first [OF nn this] show False by (simp add: sp HasPrefix_def)
  qed
  define k where "k = length a + length old + length b - (?i + length old)"
  from le have k: "?i + length old + k = length a + length old + length b"
    by (simp add: k_def)
  have "drop k ?rest = drop (?i + length old + k) content"
    by (simp add: add.commute)
  also have "\<dots> = drop (length a + length old + length b) content"
    by (simp only: k)
  also have "\<dots> = old @ c"
    by (simp add: sp)
  finally have "HasPrefix (drop k ?rest) old" by (simp add: HasPrefix_def)
  from Count_occurs [OF this] have "1 \<le> Count ?rest old" .
  with ne Count_loop_some [OF ne nn] show "2 \<le> Count content old"
    by (simp add: Count_def)
qed

text \<open>
  Claim C2, as stated: \<^const>\<open>EditFile\<close> fails with the spec's AmbiguousMatch, the
  content unchanged, whenever \<open>old\<close> occurs more than once. It fails where the
  occurrences overlap: in the file \<^verbatim>\<open>aaa\<close> the text \<^verbatim>\<open>aa\<close> occurs at offset 0 and at
  offset 1, \<^verbatim>\<open>strings.Count\<close> counts one, and \<^const>\<open>EditFile\<close> succeeds and
  writes \<^verbatim>\<open>xa\<close>.
\<close>

theorem EditFile_overlapping_counterexample:
  "files remote_aaa ''/f'' = Some ''aaa''
   \<and> ''aaa'' = [] @ ''aa'' @ ''a''
   \<and> ''aaa'' = ''a'' @ ''aa'' @ []
   \<and> fst (EditFile remote_exec ''/f'' ''aa'' ''x'' remote_aaa) = None
   \<and> files (snd (EditFile remote_exec ''/f'' ''aa'' ''x'' remote_aaa)) ''/f'' = Some ''xa''"
proof -
  have f: "files remote_aaa ''/f'' = Some ''aaa''"
    by (simp add: remote_aaa_def)
  have c: "Count ''aaa'' ''aa'' = 1" and rp: "Replace1 ''aaa'' ''aa'' ''x'' = ''xa''"
    by code_simp+
  have "EditFile remote_exec ''/f'' ''aa'' ''x'' remote_aaa =
      (None, remote_aaa\<lparr>dispatched := dispatched remote_aaa @ [''base64 < '' @ shellQuote ''/f''] @
                 [''echo '' @ shellQuote (EncodeToString ''xa'') @ '' | base64 -d > '' @ shellQuote ''/f''],
               files := (files remote_aaa)(''/f'' \<mapsto> ''xa'')\<rparr>)"
    using c rp by (simp add: EditFile_remote [OF f] Let_def del: append.simps)
  with f show ?thesis by simp
qed

text \<open>
  Claim C2, amended. \<^const>\<open>EditFile\<close> counts the occurrences of \<open>old\<close> in the remote
  content as \<^verbatim>\<open>strings.Count\<close> does: from the left and without overlap, and for the
  empty \<open>old\<close> the number of runes plus one. The count is zero exactly when \<open>old\<close>
  occurs nowhere; for a non-empty \<open>old\<close> it is two or more exactly when \<open>old\<close> occurs
  twice without overlap. \<^const>\<open>EditFile\<close> fails with \<^verbatim>\<open>old_str not found in file\<close>
  (the spec's NotFound) when the count is zero and with
  \<^verbatim>\<open>old_str found N times, must be unique\<close> (the spec's AmbiguousMatch) when it is two
  or more; in both cases the remote target received the read command only, so the file
  is as it was. When the count is one, the first place where \<open>old\<close> matches is replaced
  by \<open>new\<close> and the result is written back.
\<close>

theorem EditFile_outcomes:
  assumes "files r path = Some content"
  shows "(Count content old = 0 \<longleftrightarrow> (\<forall>pre post. content \<noteq> pre @ old @ post))
       \<and> (old \<noteq> [] \<longrightarrow>
            (2 \<le> Count content old \<longleftrightarrow> (\<exists>a b c. content = a @ old @ b @ old @ c)))
       \<and> (old = [] \<longrightarrow> Count content old = RuneCountInString content + 1)
       \<and> (Count content old = 0 \<longrightarrow>
            EditFile remote_exec path old new r =
              (Some ''old_str not found in file'',
               r\<lparr>dispatched := dispatched r @ [''base64 < '' @ shellQuote path]\<rparr>))
       \<and> (2 \<le> Count content old \<longrightarrow>
            EditFile remote_exec path old new r =
              (Some (''old_str found '' @ fmt_d (int (Count content old)) @ '' times, must be unique''),
               r\<lparr>dispatched := dispatched r @ [''base64 < '' @ shellQuote path]\<rparr>))
       \<and> (Count content old = 1 \<longrightarrow>
            (\<exists>pre post r'.
               content = pre @ old @ post
               \<and> (\<forall>pre' post'. content = pre' @ old @ post' \<longrightarrow> length pre \<le> length pre')
               \<and> EditFile remote_exec path old new r = (None, r')
               \<and> files r' = (files r)(path \<mapsto> pre @ new @ post)
               \<and> dispatched r' = dispatched r @
                    [''base64 < '' @ shellQuote path,
                     ''echo '' @ shellQuote (EncodeToString (pre @ new @ post)) @ '' | base64 -d > ''
                       @ shellQuote path]))"
proof (intro conjI impI)
  show "Count content old = 0 \<longleftrightarrow> (\<forall>pre post. content \<noteq> pre @ old @ post)"
    by (rule Count_zero_iff)
next
  assume "old \<noteq> []"
  then show "2 \<le> Count content old \<longleftrightarrow> (\<exists>a b c. content = a @ old @ b @ old @ c)"
    by (rule Count_two_iff)
next
  assume "old = []"
  then show "Count content old = RuneCountInString content + 1"
    by (simp add: Count_def)
next
  assume "Count content old = 0"
  then show "EditFile remote_exec path old new r =
      (Some ''old_str not found in file'', r\<lparr>dispatched := dispatched r @ [''base64 < '' @ shellQuote path]\<rparr>)"
    by (simp add: EditFile_remote [OF assms] del: append.simps)
next
  assume "2 \<le> Count content old"
  then show "EditFile remote_exec path old new r =
      (Some (''old_str found '' @ fmt_d (int (Count content old)) @ '' times, must be unique''),
       r\<lparr>dispatched := dispatched r @ [''base64 < '' @ shellQuote path]\<rparr>)"
    by (simp add: EditFile_remote [OF assms] Let_def del: append.simps)
next
  assume one: "Count content old = 1"
  then have "0 < Count content old" by simp
  from Replace1_split [OF this, of new] obtain pre post where
    sp: "content = pre @ old @ post" and rp: "Replace1 content old new = pre @ new @ post"
    and first: "\<forall>pre' post'. content = pre' @ old @ post' \<longrightarrow> length pre \<le> length pre'"
    by blast
  let ?r' = "r\<lparr>dispatched := dispatched r @ [''base64 < '' @ shellQuote path,
       ''echo '' @ shellQuote (EncodeToString (pre @ new @ post)) @ '' | base64 -d > '' @ shellQuote path],
       files := (files r)(path \<mapsto> pre @ new @ post)\<rparr>"
  have "EditFile remote_exec path old new r = (None, ?r')"
    using one rp by (simp add: EditFile_remote [OF assms] Let_def del: append.simps)
  with sp first show "\<exists>pre post r'.
               content = pre @ old @ post
               \<and> (\<forall>pre' post'. content = pre' @ old @ post' \<longrightarrow> length pre \<le> length pre')
               \<and> EditFile remote_exec path old new r = (None, r')
               \<and> files r' = (files r)(path \<mapsto> pre @ new @ post)
               \<and> dispatched r' = dispatched r @
                    [''base64 < '' @ shellQuote path,
                     ''echo '' @ shellQuote (EncodeToString (pre @ new @ post)) @ '' | base64 -d > ''
                       @ shellQuote path]"
    by (intro exI [of _ pre] exI [of _ post] exI [of _ ?r']) simp
qed

lemma Count_hello:
  "Count ''hello'' ''zz'' = 0" "Count ''hello'' ''l'' = 2" "Count ''hello'' ''he'' = 1"
  "Count ''hello'' [] = 6"
  by code_simp+

lemma fmt_d_small: "fmt_d 2 = ''2''" "fmt_d 6 = ''6''"
  by (simp_all add: fmt_d_def show_nat.simps digit_def)

theorem EditFile_outcomes_witness:
  "files remote_hello ''/f'' = Some ''hello''
   \<and> Count ''hello'' ''zz'' = 0
   \<and> (\<forall>pre post. ''hello'' \<noteq> pre @ ''zz'' @ post)
   \<and> fst (EditFile remote_exec ''/f'' ''zz'' ''x'' remote_hello) = Some ''old_str not found in file''
   \<and> files (snd (EditFile remote_exec ''/f'' ''zz'' ''x'' remote_hello)) = files remote_hello
   \<and> ''l'' \<noteq> [] \<and> 2 \<le> Count ''hello'' ''l''
   \<and> (\<exists>a b c. ''hello'' = a @ ''l'' @ b @ ''l'' @ c)
   \<and> fst (EditFile remote_exec ''/f'' ''l'' ''x'' remote_hello)
        = Some ''old_str found 2 times, must be unique''
   \<and> files (snd (EditFile remote_exec ''/f'' ''l'' ''x'' remote_hello)) = files remote_hello
   \<and> 2 \<le> Count ''hello'' [] \<and> RuneCountInString ''hello'' + 1 = 6
   \<and> fst (EditFile remote_exec ''/f'' [] ''x'' remote_hello)
        = Some ''old_str found 6 times, must be unique''
   \<and> Count ''hello'' ''he'' = 1
   \<and> fst (EditFile remote_exec ''/f'' ''he'' ''x'' remote_hello) = None
   \<and> files (snd (EditFile remote_exec ''/f'' ''he'' ''x'' remote_hello)) ''/f'' = Some ''xllo''"
proof -
  have f: "files remote_hello ''/f'' = Some ''hello''"
    by (simp add: remote_hello_def)
  have he: "Replace1 ''hello'' ''he'' ''x'' = ''xllo''"
    by code_simp
  have e: "fst (EditFile remote_exec ''/f'' ''he'' ''x'' remote_hello) = None
      \<and> files (snd (EditFile remote_exec ''/f'' ''he'' ''x'' remote_hello)) ''/f'' = Some ''xllo''"
    by (simp add: EditFile_remote [OF f] Let_def Count_hello he del: append.simps)
  from EditFile_outcomes [OF f, of "''zz''" "''x''"] EditFile_outcomes [OF f, of "''l''" "''x''"]
    EditFile_outcomes [OF f, of "[]" "''x''"] EditFile_outcomes [OF f, of "''he''" "''x''"] f e
  show ?thesis
    by (simp add: Count_hello fmt_d_small)
qed

definition remote_ab :: remote where
  "remote_ab = \<lparr>files = [''/f'' \<mapsto> ''ab''], sessions = [], dispatched = []\<rparr>"

text \<open>
  Claim C1, as stated: when \<open>old\<close> occurs exactly once, \<^const>\<open>EditFile\<close> and then
  \<^const>\<open>ViewFile\<close> show \<open>new\<close> once and \<open>old\<close> zero times. It fails where \<open>new\<close>
  holds \<open>old\<close>: the file \<^verbatim>\<open>ab\<close> with \<open>old = a\<close> and \<open>new = aa\<close> becomes \<^verbatim>\<open>aab\<close>,
  and the view \<^verbatim>\<open>1. aab\<close> shows \<open>old\<close> twice.
\<close>

theorem EditFile_ViewFile_counterexample:
  "files remote_ab ''/f'' = Some ''ab''
   \<and> Count ''ab'' ''a'' = 1
   \<and> fst (EditFile remote_exec ''/f'' ''a'' ''aa'' remote_ab) = None
   \<and> fst (ViewFile remote_exec ''/f'' [] (snd (EditFile remote_exec ''/f'' ''a'' ''aa'' remote_ab)))
        = Inr ''1. aab\<newline>''
   \<and> Count ''1. aab\<newline>'' ''a'' = 2"
proof -
  have f: "files remote_ab ''/f'' = Some ''ab''"
    by (simp add: remote_ab_def)
  have c: "Count ''ab'' ''a'' = 1" and r: "Replace1 ''ab'' ''a'' ''aa'' = ''aab''"
    and v: "awk_number (lines_of ''aab'') = ''1. aab\<newline>''"
    and c2: "Count ''1. aab\<newline>'' ''a'' = 2"
    by code_simp+
  have e: "EditFile remote_exec ''/f'' ''a'' ''aa'' remote_ab =
      (None, remote_ab\<lparr>dispatched := dispatched remote_ab @ [''base64 < '' @ shellQuote ''/f''] @
                 [''echo '' @ shellQuote (EncodeToString ''aab'') @ '' | base64 -d > '' @ shellQuote ''/f''],
               files := (files remote_ab)(''/f'' \<mapsto> ''aab'')\<rparr>)"
    using c r by (simp add: EditFile_remote [OF f] Let_def del: append.simps)
  have "fst (ViewFile remote_exec ''/f'' [] (snd (EditFile remote_exec ''/f'' ''a'' ''aa'' remote_ab)))
      = Inr (awk_number (lines_of ''aab''))"
    by (subst e, subst ViewFile_remote [where content = "''aab''"]) simp_all
  with f c c2 e v show ?thesis by simp
qed

text \<open>
  Claim C1, amended: when \<open>old\<close> occurs exactly once in the remote content,
  \<^const>\<open>EditFile\<close> succeeds and leaves the content with that occurrence replaced by
  \<open>new\<close>; \<open>new\<close> occurs in it at least once, and \<^const>\<open>ViewFile\<close> then returns its
  numbered lines. (How often \<open>new\<close> and \<open>old\<close> occur afterwards depends on the text
  around the replacement.)
\<close>

theorem EditFile_ViewFile_replaced:
  assumes "files r path = Some content" and "Count content old = 1"
  shows "\<exists>pre post r1 r2.
           content = pre @ old @ post
           \<and> EditFile remote_exec path old new r = (None, r1)
           \<and> files r1 path = Some (pre @ new @ post)
           \<and> 1 \<le> Count (pre @ new @ post) new
           \<and> ViewFile remote_exec path [] r1 = (Inr (awk_number (lines_of (pre @ new @ post))), r2)"
proof -
  from assms(2) have "0 < Count content old" by simp
  from Replace1_split [OF this, of new] obtain pre post where
    sp: "content = pre @ old @ post" and rp: "Replace1 content old new = pre @ new @ post"
    by blast
  let ?r1 = "r\<lparr>dispatched := dispatched r @ [''base64 < '' @ shellQuote path] @
       [''echo '' @ shellQuote (EncodeToString (pre @ new @ post)) @ '' | base64 -d > '' @ shellQuote path],
       files := (files r)(path \<mapsto> pre @ new @ post)\<rparr>"
  have e: "EditFile remote_exec path old new r = (None, ?r1)"
    using assms(2) rp by (simp add: EditFile_remote [OF assms(1)] Let_def del: append.simps)
  have f1: "files ?r1 path = Some (pre @ new @ post)" by simp
  from ViewFile_remote [OF f1] sp e f1 Count_middle [of pre new post] show ?thesis
    by blast
qed

theorem EditFile_ViewFile_replaced_witness:
  "files remote_ab ''/f'' = Some ''ab'' \<and> Count ''ab'' ''a'' = 1
   \<and> (\<exists>pre post r1 r2.
           ''ab'' = pre @ ''a'' @ post
           \<and> EditFile remote_exec ''/f'' ''a'' ''aa'' remote_ab = (None, r1)
           \<and> files r1 ''/f'' = Some (pre @ ''aa'' @ post)
           \<and> 1 \<le> Count (pre @ ''aa'' @ post) ''aa''
           \<and> ViewFile remote_exec ''/f'' [] r1 = (Inr (awk_number (lines_of (pre @ ''aa'' @ post))), r2))"
proof -
  have f: "files remote_ab ''/f'' = Some ''ab''"
    by (simp add: remote_ab_def)
  have c: "Count ''ab'' ''a'' = 1"
    by code_simp
  from EditFile_ViewFile_replaced [OF f c, of "''aa''"] f c show ?thesis
    by simp
qed

section \<open>Package mcp: the tool handlers\<close>

text \<open>
  The arguments of a tool call are a \<^verbatim>\<open>map[string]any\<close> decoded from JSON. A value of
  type \<^verbatim>\<open>any\<close> is one of the cases below; a JSON number arrives as a \<^verbatim>\<open>float64\<close>
  (modelled as a real number), and \<^verbatim>\<open>toInt\<close> also accepts a Go \<^verbatim>\<open>int\<close>, a signed
  integer of 64 bits.
\<close>

datatype any =
    ANil
  | ABool bool
  | AFloat64 real
  | AInt "64 word"
  | AString string
  | ASlice "any list"
  | AMap "(string \<times> any) list"

type_synonym CallToolRequest = "string \<rightharpoonup> any"

record CallToolResult =
  IsError :: bool
  Content :: "string list"













type_synonym 'w handler = "CallToolRequest \<Rightarrow> 'w \<Rightarrow> (CallToolResult \<times> string option) \<times> 'w"


text \<open>A result and no Go error: what every \<^verbatim>\<open>return ..., nil\<close> of a handler gives.\<close>

definition reply :: "CallToolResult \<Rightarrow> 'w \<Rightarrow> (CallToolResult \<times> string option) \<times> 'w" where
  "reply res w = ((res, None), w)"






















subsection \<open>Every handler answers with a result envelope\<close>

lemma reply_shape: "snd (fst (reply res w)) = None" "fst (fst (reply res w)) = res" "snd (reply res w) = w"
  by (simp_all add: reply_def)




























subsection \<open>The range argument of remote_view\<close>



















subsection \<open>The async mode of remote_bash\<close>




subsection \<open>The search tool\<close>













section \<open>Package ssh: the terminal sessions\<close>

text \<open>
  \<^verbatim>\<open>specialKeys\<close> is a Go map; the order in which \<^verbatim>\<open>range\<close> visits it is not fixed.
  The model visits it in the order of the declaration. The loop keeps a match only when
  it is strictly earlier than the best one so far, and no two of the patterns can match at
  the same offset, so the order does not change the result.
\<close>

definition specialKeys :: "(string \<times> string) list" where
  "specialKeys =
     [(''{enter}'', ''Enter''),
      (''{up}'', ''Up''),
      (''{down}'', ''Down''),
      (''{left}'', ''Left''),
      (''{right}'', ''Right''),
      (''{backspace}'', ''BSpace'')]"

definition best_step :: "string \<Rightarrow> int \<times> string \<times> string \<Rightarrow> string \<times> string \<Rightarrow> int \<times> string \<times> string" where
  "best_step input best entry =
     (case best of (bestIdx, bestKey, bestTmux) \<Rightarrow>
        (case entry of (pattern, tmuxKey) \<Rightarrow>
           (let idx = Index input pattern in
            if idx \<ge> 0 \<and> (bestIdx < 0 \<or> idx < bestIdx) then (idx, pattern, tmuxKey)
            else (bestIdx, bestKey, bestTmux))))"

definition find_best :: "string \<Rightarrow> (string \<times> string) list \<Rightarrow> int \<times> string \<times> string" where
  "find_best input keys = foldl (best_step input) (- 1, [], []) keys"

function parseInput :: "string \<Rightarrow> string list" where
  "parseInput input =
     (if length input > 0 then
        (case find_best input specialKeys of (bestIdx, bestKey, bestTmux) \<Rightarrow>
           if bestIdx < 0 then [input]
           else (if bestIdx > 0 then [take (nat bestIdx) input] else [])
                  @ [CHR 0x00 # bestTmux]
                  @ parseInput (drop (nat bestIdx + length bestKey) input))
      else [])"
  by pat_completeness auto

lemma foldl_best_step_key:
  assumes "foldl (best_step input) b keys = (i, k, t)" and "0 \<le> i"
    and "fst b < 0 \<or> (fst (snd b) \<noteq> [] \<and> 0 \<le> Index input (fst (snd b)))"
    and "\<forall>e \<in> set keys. fst e \<noteq> []"
  shows "k \<noteq> [] \<and> 0 \<le> Index input k"
  using assms
proof (induction keys arbitrary: b)
  case Nil
  then show ?case by auto
next
  case (Cons e es)
  obtain bi bk bt where b: "b = (bi, bk, bt)" by (cases b) auto
  obtain p tk where e: "e = (p, tk)" by (cases e) auto
  have "fst (best_step input b e) < 0
      \<or> (fst (snd (best_step input b e)) \<noteq> [] \<and> 0 \<le> Index input (fst (snd (best_step input b e))))"
    using Cons.prems(3,4) by (auto simp: best_step_def b e Let_def)
  with Cons.IH [of "best_step input b e"] Cons.prems show ?case by simp
qed

lemma find_best_key:
  assumes "find_best input specialKeys = (i, k, t)" and "0 \<le> i"
  shows "k \<noteq> [] \<and> 0 \<le> Index input k"
proof -
  have "\<forall>e \<in> set specialKeys. fst e \<noteq> []"
    by (simp add: specialKeys_def)
  with foldl_best_step_key [of input "(- 1, [], [])" specialKeys i k t] assms show ?thesis
    by (simp add: find_best_def)
qed

termination parseInput
proof (relation "measure length")
  show "wf (measure length)" by simp
next
  fix input :: string and bestIdx :: int and y :: "string \<times> string" and bestKey bestTmux :: string
  assume pos: "0 < length input" and x: "(bestIdx, y) = find_best input specialKeys"
    and y: "(bestKey, bestTmux) = y" and nn: "\<not> bestIdx < 0"
  from x y have "find_best input specialKeys = (bestIdx, bestKey, bestTmux)" by simp
  from find_best_key [OF this] nn have "bestKey \<noteq> []" by simp
  with pos show "(drop (nat bestIdx + length bestKey) input, input) \<in> measure length"
    by simp
qed

declare parseInput.simps [simp del]

definition send_keys_cmd :: "string \<Rightarrow> string \<Rightarrow> string" where
  "send_keys_cmd name seg =
     (if HasPrefix seg [CHR 0x00] then
        (let tmuxKey = drop 1 seg in ''tmux send-keys -t '' @ shellQuote name @ '' '' @ tmuxKey)
      else ''tmux send-keys -t '' @ shellQuote name @ '' '' @ shellQuote seg)"

fun WriteSession_loop :: "'w transport \<Rightarrow> string \<Rightarrow> string list \<Rightarrow> 'w \<Rightarrow> string option \<times> 'w" where
  "WriteSession_loop Exec name [] w = (None, w)"
| "WriteSession_loop Exec name (seg # segs) w =
     (case execTmux Exec (send_keys_cmd name seg) w of
        (r, w1) \<Rightarrow>
          (case err r of
             Some e \<Rightarrow> (Some (''write session: '' @ e), w1)
           | None \<Rightarrow>
               if exitCode r \<noteq> 0 then
                 (Some (''write session failed (exit '' @ fmt_d (exitCode r) @ ''): ''
                          @ TrimSpace (stderr r)), w1)
               else WriteSession_loop Exec name segs w1))"

definition WriteSession :: "'w transport \<Rightarrow> string \<Rightarrow> string \<Rightarrow> 'w \<Rightarrow> string option \<times> 'w" where
  "WriteSession Exec sessionID input w =
     (let name = tmuxSessionName sessionID; segments = parseInput input
      in WriteSession_loop Exec name segments w)"

definition install_script :: string where
  "install_script = misePATH
     @ '' && (command -v mise >/dev/null 2>&1 || curl -fsSL https://mise.jdx.dev/install.sh | sh) && mise use -g tmux''"

definition ensureTmux :: "'w transport \<Rightarrow> 'w \<Rightarrow> string option \<times> 'w" where
  "ensureTmux Exec w =
     (case execTmux Exec ''command -v tmux'' w of
        (r0, w0) \<Rightarrow>
          if exitCode r0 = 0 then (None, w0)
          else
            (case Exec install_script w0 of
               (r1, w1) \<Rightarrow>
                 (case err r1 of
                    Some e \<Rightarrow> (Some (''installing tmux: '' @ e), w1)
                  | None \<Rightarrow>
                      if exitCode r1 \<noteq> 0 then
                        (Some (''failed to install tmux via mise (exit '' @ fmt_d (exitCode r1)
                                 @ ''): '' @ TrimSpace (stderr r1)), w1)
                      else
                        (case execTmux Exec ''command -v tmux'' w1 of
                           (r2, w2) \<Rightarrow>
                             if exitCode r2 \<noteq> 0 then
                               (Some ''tmux still not available after mise install'', w2)
                             else (None, w2)))))"

definition StartSession_cmd :: "string \<Rightarrow> string \<Rightarrow> string" where
  "StartSession_cmd name command =
     ''tmux new-session -d -s '' @ shellQuote name @ '' -x 200 -y 50 '' @ shellQuote command
       @ '' && tmux set-option -t '' @ shellQuote name @ '' remain-on-exit on''"

definition StartSession :: "'w transport \<Rightarrow> string \<Rightarrow> string \<Rightarrow> 'w \<Rightarrow> string option \<times> 'w" where
  "StartSession Exec sessionID command w =
     (let name = tmuxSessionName sessionID in
      case ensureTmux Exec w of
        (Some e, w0) \<Rightarrow> (Some e, w0)
      | (None, w0) \<Rightarrow>
          (case execTmux Exec (StartSession_cmd name command) w0 of
             (r, w1) \<Rightarrow>
               (case err r of
                  Some e \<Rightarrow> (Some (''start session: '' @ e), w1)
                | None \<Rightarrow>
                    if exitCode r \<noteq> 0 then
                      (Some (''start session failed (exit '' @ fmt_d (exitCode r) @ ''): ''
                               @ TrimSpace (stderr r)), w1)
                    else (None, w1))))"

text \<open>A transport that records the commands it is given and answers each with success.\<close>

definition recording :: "string list transport" where
  "recording cmd w = (answer [] [] 0, w @ [cmd])"

subsection \<open>Writing to a session\<close>

lemma parseInput_examples:
  "parseInput ''ls{enter}'' = [''ls'', CHR 0x00 # ''Enter'']"
  "parseInput ''{up}'' = [CHR 0x00 # ''Up'']"
  "parseInput (CHR 0x00 # ''Up'') = [CHR 0x00 # ''Up'']"
  "parseInput ''{tab}x'' = [''{tab}x'']"
  by code_simp+

lemma recording_WriteSession_loop:
  "WriteSession_loop recording name segs w = (None, w @ map (\<lambda>seg. misePATH @ '' && '' @ send_keys_cmd name seg) segs)"
  by (induction segs arbitrary: w) (simp_all add: execTmux_def recording_def answer_def)

text \<open>
  Claim C6 says that every run of text other than the six tokens becomes a literal segment
  and is sent as literal text. The code marks a control key by a leading zero byte inside
  the same list of strings, so a literal run that itself begins with a zero byte (JSON
  \<^verbatim>\<open>\u0000\<close>) is taken for a key by \<^const>\<open>WriteSession\<close>: the text after the zero
  byte goes to the shell as a key name, unquoted. The input of a zero byte and \<^verbatim>\<open>Up\<close>
  gives the same segments and the same command as the token \<^verbatim>\<open>{up}\<close>. The other
  parts of the claim hold at their examples: \<^verbatim>\<open>ls{enter}\<close> gives two segments, and an
  unknown token in braces stays literal text.
\<close>

theorem WriteSession_zero_byte_literal_sent_as_key:
  "parseInput (CHR 0x00 # ''Up'') = parseInput ''{up}''
   \<and> snd (WriteSession recording ''s1'' (CHR 0x00 # ''Up'') [])
        = [misePATH @ '' && tmux send-keys -t 'copilot-s1' Up'']
   \<and> snd (WriteSession recording ''s1'' (CHR 0x00 # ''; reboot'') [])
        = [misePATH @ '' && tmux send-keys -t 'copilot-s1' ; reboot'']
   \<and> snd (WriteSession recording ''s1'' ''ls{enter}'' [])
        = [misePATH @ '' && tmux send-keys -t 'copilot-s1' 'ls'' @ [CHR 0x27],
           misePATH @ '' && tmux send-keys -t 'copilot-s1' Enter'']
   \<and> snd (WriteSession recording ''s1'' ''{tab}x'' [])
        = [misePATH @ '' && tmux send-keys -t 'copilot-s1' '{tab}x'' @ [CHR 0x27]]"
proof -
  have p: "parseInput (CHR 0x00 # ''; reboot'') = [CHR 0x00 # ''; reboot'']"
    by code_simp
  have q: "shellQuote ''copilot-s1'' = CHR 0x27 # ''copilot-s1'' @ [CHR 0x27]"
    "shellQuote ''ls'' = CHR 0x27 # ''ls'' @ [CHR 0x27]"
    "shellQuote ''{tab}x'' = CHR 0x27 # ''{tab}x'' @ [CHR 0x27]"
    by (simp_all add: shellQuote_def ReplaceAll_byte_def)
  show ?thesis
    by (simp add: WriteSession_def recording_WriteSession_loop parseInput_examples p
        send_keys_cmd_def HasPrefix_def tmuxSessionName_def tmuxPrefix_def q)
qed

subsection \<open>Session names\<close>

lemma take_append_sep:
  assumes "take (length p) (n @ x # rest) = p" and "x \<notin> set p"
  shows "take (length p) n = p"
proof (cases "length p \<le> length n")
  case True
  with assms(1) show ?thesis by simp
next
  case False
  then have lt: "length n < length p" by simp
  have "take (length p) (n @ x # rest) ! length n = (n @ x # rest) ! length n"
    using lt by (rule nth_take)
  also have "\<dots> = x" by simp
  finally have "p ! length n = x" using assms(1) by simp
  with lt have "x \<in> set p" by (metis nth_mem)
  with assms(2) show ?thesis by contradiction
qed

lemma line_prefix:
  "HasPrefix (n @ '' '' @ show_nat c @ '' '' @ show_nat a) tmuxPrefix \<longleftrightarrow> HasPrefix n tmuxPrefix"
proof -
  have line: "n @ '' '' @ show_nat c @ '' '' @ show_nat a = n @ CHR '' '' # (show_nat c @ '' '' @ show_nat a)"
    by simp
  have nosp: "CHR '' '' \<notin> set tmuxPrefix"
    by (simp add: tmuxPrefix_def)
  show ?thesis
  proof
    assume "HasPrefix (n @ '' '' @ show_nat c @ '' '' @ show_nat a) tmuxPrefix"
    then have "take (length tmuxPrefix) (n @ CHR '' '' # (show_nat c @ '' '' @ show_nat a)) = tmuxPrefix"
      by (simp add: HasPrefix_def)
    from take_append_sep [OF this nosp] show "HasPrefix n tmuxPrefix"
      by (simp add: HasPrefix_def)
  next
    assume h: "HasPrefix n tmuxPrefix"
    then have t: "take (length tmuxPrefix) n = tmuxPrefix" by (simp add: HasPrefix_def)
    from h have "length tmuxPrefix \<le> length n"
      using HasPrefix_length [of n tmuxPrefix] by simp
    with t show "HasPrefix (n @ '' '' @ show_nat c @ '' '' @ show_nat a) tmuxPrefix"
      by (simp add: HasPrefix_def)
  qed
qed

text \<open>What the remote shell and tmux make of the list command of the client.\<close>

lemma skip_PATH_misePATH: "skip_PATH (misePATH @ '' && '' @ x) = Some x"
  by (simp add: skip_PATH_def strip_prefix_def HasPrefix_def misePATH_def)

lemma ListSessions_cmd_quoted:
  "ListSessions_cmd =
     ''tmux list-sessions -F '' @ shellQuote ''#{session_name} #{session_created} #{session_activity}''
       @ '' 2>/dev/null | grep '' @ shellQuote (''^'' @ tmuxPrefix)"
  by (simp add: ListSessions_cmd_def shellQuote_def ReplaceAll_byte_def tmuxPrefix_def)

lemma parse_list_ListSessions_cmd:
  "parse_list ListSessions_cmd =
     Some (''#{session_name} #{session_created} #{session_activity}'', Some (''^'' @ tmuxPrefix))"
proof -
  let ?fmt = "''#{session_name} #{session_created} #{session_activity}''"
  have 1: "shell_word (shellQuote ?fmt @ '' 2>/dev/null | grep '' @ shellQuote (''^'' @ tmuxPrefix))
      = Some (?fmt, '' 2>/dev/null | grep '' @ shellQuote (''^'' @ tmuxPrefix))"
    by (rule shell_word_shellQuote) simp
  have 2: "shell_word (shellQuote (''^'' @ tmuxPrefix) @ []) = Some (''^'' @ tmuxPrefix, [])"
    by (rule shell_word_shellQuote) simp
  have 3: "strip_prefix '' 2>/dev/null'' ('' 2>/dev/null | grep '' @ shellQuote (''^'' @ tmuxPrefix))
      = Some ('' | grep '' @ shellQuote (''^'' @ tmuxPrefix))"
    by (simp add: strip_prefix_def HasPrefix_def)
  have 4: "strip_prefix '' | grep '' ('' | grep '' @ shellQuote (''^'' @ tmuxPrefix))
      = Some (shellQuote (''^'' @ tmuxPrefix))"
    by (rule strip_prefix_append)
  have 5: "'' | grep '' @ shellQuote (''^'' @ tmuxPrefix) \<noteq> []"
    by simp
  from 2 have 6: "shell_word (shellQuote (''^'' @ tmuxPrefix)) = Some (''^'' @ tmuxPrefix, [])"
    by simp
  show ?thesis
    unfolding ListSessions_cmd_quoted parse_list_def strip_prefix_append
    by (simp only: option.case 1 prod.case 3 5 if_False 4 6 list.case)
qed

lemma tmux_format_client:
  "tmux_format ''#{session_name} #{session_created} #{session_activity}'' (n, c, a)
     = Some (n @ '' '' @ show_nat c @ '' '' @ show_nat a)"
  by (simp add: HasPrefix_def)

lemma those_map_Some: "those (map (\<lambda>x. Some (g x)) xs) = Some (map g xs)"
  by (induction xs) simp_all

lemma format_sessions:
  "those (map (tmux_format ''#{session_name} #{session_created} #{session_activity}'') ss)
     = Some (map (\<lambda>(n, c, a). n @ '' '' @ show_nat c @ '' '' @ show_nat a) ss)"
proof -
  have "tmux_format ''#{session_name} #{session_created} #{session_activity}''
      = (\<lambda>s. Some ((\<lambda>(n, c, a). n @ '' '' @ show_nat c @ '' '' @ show_nat a) s))"
  proof (rule ext)
    fix s :: "string \<times> nat \<times> nat"
    obtain n c a where "s = (n, c, a)" by (cases s) auto
    then show "tmux_format ''#{session_name} #{session_created} #{session_activity}'' s
        = Some ((\<lambda>(n, c, a). n @ '' '' @ show_nat c @ '' '' @ show_nat a) s)"
      by (simp only: tmux_format_client prod.case)
  qed
  then show ?thesis by (simp only: those_map_Some)
qed

lemma grep_prefix:
  "grep_lines (''^'' @ tmuxPrefix) ls = Some (filter (\<lambda>l. HasPrefix l tmuxPrefix) ls)"
  by (simp add: grep_lines_def regex_plain_def tmuxPrefix_def)

lemma filter_session_lines:
  "filter (\<lambda>l. HasPrefix l tmuxPrefix) (map (\<lambda>(n, c, a). n @ '' '' @ show_nat c @ '' '' @ show_nat a) ss)
     = map (\<lambda>(n, c, a). n @ '' '' @ show_nat c @ '' '' @ show_nat a)
         (filter (\<lambda>s. HasPrefix (fst s) tmuxPrefix) ss)"
  by (induction ss) (auto simp: line_prefix simp del: append.simps)

lemma parse_ListSessions_cmd:
  "parse_read (misePATH @ x) = None" "parse_write (misePATH @ x) = None" "parse_view (misePATH @ x) = None"
  by (simp_all add: parse_read_def parse_write_def parse_view_def strip_prefix_def HasPrefix_def misePATH_def)

lemma ListSessions_remote:
  "ListSessions remote_exec r =
     (Inr (unlines (map (\<lambda>(n, c, a). n @ '' '' @ show_nat c @ '' '' @ show_nat a)
             (filter (\<lambda>s. HasPrefix (fst s) tmuxPrefix) (sessions r)))),
      r\<lparr>dispatched := dispatched r @ [misePATH @ '' && '' @ ListSessions_cmd]\<rparr>)"
proof -
  have "remote_exec (misePATH @ '' && '' @ ListSessions_cmd) r =
      (list_sessions ''#{session_name} #{session_created} #{session_activity}'' (Some (''^'' @ tmuxPrefix))
         (sessions r),
       r\<lparr>dispatched := dispatched r @ [misePATH @ '' && '' @ ListSessions_cmd]\<rparr>)"
    by (simp add: remote_exec_def parse_ListSessions_cmd skip_PATH_misePATH parse_list_ListSessions_cmd
        Let_def del: append.simps)
  then show ?thesis
    by (simp add: ListSessions_def execTmux_def list_sessions_def format_sessions grep_prefix
        filter_session_lines answer_def del: append.simps)
qed

lemma recording_StartSession:
  "StartSession recording sessionID command w =
     (None, w @ [misePATH @ '' && command -v tmux'',
                 misePATH @ '' && '' @ StartSession_cmd (tmuxSessionName sessionID) command])"
  by (simp add: StartSession_def ensureTmux_def execTmux_def recording_def answer_def)


definition remote_two :: remote where
  "remote_two = \<lparr>files = Map.empty,
     sessions = [(''copilot-a'', 10, 20), (''other'', 30, 40), (''my-copilot-b'', 50, 60)],
     dispatched = []\<rparr>"

text \<open>
  Claim C7. The session name is the prefix \<^verbatim>\<open>copilot-\<close> followed by the identifier;
  \<^const>\<open>StartSession\<close> asks tmux for a session of exactly that name (the shell reads the
  quoted name back unchanged), and \<^const>\<open>ListSessions\<close> returns the lines of exactly those
  sessions of the remote target whose name begins with the prefix, whatever other sessions
  exist there. The remote target reads the format of a line and the pattern of \<^verbatim>\<open>grep\<close>
  from the command it is sent.
\<close>

theorem session_names_carry_prefix:
  "tmuxSessionName sessionID = ''copilot-'' @ sessionID
   \<and> snd (StartSession recording sessionID command []) =
        [misePATH @ '' && command -v tmux'',
         misePATH @ '' && tmux new-session -d -s '' @ shellQuote (''copilot-'' @ sessionID)
           @ '' -x 200 -y 50 '' @ shellQuote command
           @ '' && tmux set-option -t '' @ shellQuote (''copilot-'' @ sessionID) @ '' remain-on-exit on'']
   \<and> shell_word (shellQuote (''copilot-'' @ sessionID) @ '' -x 200 -y 50 '' @ rest)
        = Some (''copilot-'' @ sessionID, '' -x 200 -y 50 '' @ rest)
   \<and> (\<exists>kept r'.
         ListSessions remote_exec r =
           (Inr (concat (map (\<lambda>(n, c, a). n @ '' '' @ show_nat c @ '' '' @ show_nat a @ [CHR 0x0A]) kept)), r')
         \<and> kept = filter (\<lambda>s. HasPrefix (fst s) ''copilot-'') (sessions r)
         \<and> (\<forall>(n, c, a) \<in> set kept.
               HasPrefix n ''copilot-''
               \<and> HasPrefix (n @ '' '' @ show_nat c @ '' '' @ show_nat a @ [CHR 0x0A]) ''copilot-''))"
proof (intro conjI)
  show "tmuxSessionName sessionID = ''copilot-'' @ sessionID"
    by (simp add: tmuxSessionName_def tmuxPrefix_def)
  show "snd (StartSession recording sessionID command []) =
        [misePATH @ '' && command -v tmux'',
         misePATH @ '' && tmux new-session -d -s '' @ shellQuote (''copilot-'' @ sessionID)
           @ '' -x 200 -y 50 '' @ shellQuote command
           @ '' && tmux set-option -t '' @ shellQuote (''copilot-'' @ sessionID) @ '' remain-on-exit on'']"
    by (simp add: recording_StartSession StartSession_cmd_def tmuxSessionName_def tmuxPrefix_def
        del: append.simps)
  show "shell_word (shellQuote (''copilot-'' @ sessionID) @ '' -x 200 -y 50 '' @ rest)
        = Some (''copilot-'' @ sessionID, '' -x 200 -y 50 '' @ rest)"
    by (rule shell_word_shellQuote) simp
  let ?kept = "filter (\<lambda>s. HasPrefix (fst s) ''copilot-'') (sessions r)"
  let ?line = "\<lambda>(n, c, a). n @ '' '' @ show_nat c @ '' '' @ show_nat a @ [CHR 0x0A]"
  have lines: "unlines (map (\<lambda>(n, c, a). n @ '' '' @ show_nat c @ '' '' @ show_nat a) ss)
      = concat (map ?line ss)" for ss :: "(string \<times> nat \<times> nat) list"
    by (induction ss) (auto simp: unlines_def)
  have "ListSessions remote_exec r = (Inr (concat (map ?line ?kept)),
      r\<lparr>dispatched := dispatched r @ [misePATH @ '' && '' @ ListSessions_cmd]\<rparr>)"
    unfolding ListSessions_remote lines by (simp add: tmuxPrefix_def)
  moreover have "\<forall>(n, c, a) \<in> set ?kept.
      HasPrefix n ''copilot-'' \<and> HasPrefix (n @ '' '' @ show_nat c @ '' '' @ show_nat a @ [CHR 0x0A]) ''copilot-''"
  proof (clarify, rule conjI)
    fix n c a assume "(n, c, a) \<in> set ?kept"
    then show h: "HasPrefix n ''copilot-''" by simp
    then have "take (length ''copilot-'') n = ''copilot-''" by (simp add: HasPrefix_def)
    moreover from h have "length ''copilot-'' \<le> length n"
      using HasPrefix_length [of n "''copilot-''"] by simp
    ultimately show "HasPrefix (n @ '' '' @ show_nat c @ '' '' @ show_nat a @ [CHR 0x0A]) ''copilot-''"
      by (simp add: HasPrefix_def)
  qed
  ultimately show "\<exists>kept r'.
         ListSessions remote_exec r =
           (Inr (concat (map (\<lambda>(n, c, a). n @ '' '' @ show_nat c @ '' '' @ show_nat a @ [CHR 0x0A]) kept)), r')
         \<and> kept = filter (\<lambda>s. HasPrefix (fst s) ''copilot-'') (sessions r)
         \<and> (\<forall>(n, c, a) \<in> set kept.
               HasPrefix n ''copilot-''
               \<and> HasPrefix (n @ '' '' @ show_nat c @ '' '' @ show_nat a @ [CHR 0x0A]) ''copilot-'')"
    by blast
qed

theorem session_names_carry_prefix_witness:
  "filter (\<lambda>s. HasPrefix (fst s) ''copilot-'') (sessions remote_two) = [(''copilot-a'', 10, 20)]
   \<and> HasPrefix (''copilot-a 10 20'' @ [CHR 0x0A]) ''copilot-''
   \<and> fst (ListSessions remote_exec remote_two) = Inr (''copilot-a 10 20'' @ [CHR 0x0A])"
proof -
  have k: "filter (\<lambda>s. HasPrefix (fst s) ''copilot-'') (sessions remote_two) = [(''copilot-a'', 10, 20)]"
    by (simp add: remote_two_def HasPrefix_def)
  have l: "show_nat 10 = ''10''" "show_nat 20 = ''20''"
    by (simp_all add: show_nat.simps digit_def)
  from session_names_carry_prefix [of "''a''" "''true''" "[]" remote_two] k l show ?thesis
    by auto
qed

text \<open>
  The filter is in the command: the same list command without \<^verbatim>\<open>grep\<close> gives the
  lines of all sessions of the remote target, and with another pattern other lines.
\<close>

lemma remote_exec_list_unfiltered:
  "stdout (fst (remote_exec
     (misePATH @ '' && tmux list-sessions -F '#{session_name} #{session_created}' 2>/dev/null'') remote_two))
     = ''copilot-a 10\<newline>other 30\<newline>my-copilot-b 50\<newline>''"
  "stdout (fst (remote_exec
     (misePATH @ '' && tmux list-sessions -F '#{session_name}' 2>/dev/null | grep 'copilot-'' @ [CHR 0x27])
     remote_two))
     = ''copilot-a\<newline>my-copilot-b\<newline>''"
  by code_simp+

section \<open>Package main: the forwarding rewriter\<close>

text \<open>
  A descriptor is a JSON object, in Go a \<^verbatim>\<open>map[string]any\<close>: here an association list
  with distinct keys, looked up with \<^const>\<open>map_of\<close>. \<^verbatim>\<open>range\<close> over a Go map visits the
  entries in an order that is not fixed; the model visits them in the order of the list.
  A \<^verbatim>\<open>[]string\<close> in a result is an \<^const>\<open>ASlice\<close> of \<^const>\<open>AString\<close>.
\<close>

definition string_field :: "(string \<times> any) list \<Rightarrow> string \<Rightarrow> string option" where
  "string_field m key = (case map_of m key of Some (AString s) \<Rightarrow> Some s | _ \<Rightarrow> None)"

definition env_strings :: "(string \<times> any) list \<Rightarrow> (string \<times> string) list" where
  "env_strings m =
     (case map_of m ''env'' of
        Some (AMap env) \<Rightarrow>
          concat (map (\<lambda>(k, v). case v of AString s \<Rightarrow> [(k, s)] | _ \<Rightarrow> []) env)
      | _ \<Rightarrow> [])"

definition arg_strings :: "(string \<times> any) list \<Rightarrow> string list" where
  "arg_strings m =
     (case map_of m ''args'' of
        Some (ASlice args) \<Rightarrow> concat (map (\<lambda>a. case a of AString s \<Rightarrow> [s] | _ \<Rightarrow> []) args)
      | _ \<Rightarrow> [])"

definition rewriteMCPServerForSSH ::
  "(string \<times> any) list \<Rightarrow> string \<Rightarrow> string \<Rightarrow> string \<Rightarrow> (string \<times> any) list option" where
  "rewriteMCPServerForSSH server codespaceName workdir remoteBinary =
     (let command = (case string_field server ''command'' of Some s \<Rightarrow> s | None \<Rightarrow> []) in
      if command = [] then None
      else if remoteBinary \<noteq> [] then
        (let args = [''codespace'', ''ssh'', ''-c'', codespaceName, ''--'',
                     remoteBinary, ''exec'', ''--workdir'', workdir];
             args = args @ concat (map (\<lambda>(k, s). [''--env'', k @ ''='' @ s]) (env_strings server));
             args = args @ [''--'', command];
             args = args @ arg_strings server
         in Some [(''type'', AString ''local''), (''command'', AString ''gh''),
                  (''args'', ASlice (map AString args))])
      else
        (let remoteCmd = command @ concat (map (\<lambda>s. '' '' @ s) (arg_strings server));
             envPrefix = ''cd '' @ workdir
               @ concat (map (\<lambda>(k, s). '' && export '' @ k @ ''='' @ s) (env_strings server));
             remoteCmd = envPrefix @ '' && exec '' @ remoteCmd
         in Some [(''type'', AString ''local''), (''command'', AString ''gh''),
                  (''args'', ASlice (map AString
                     [''codespace'', ''ssh'', ''-c'', codespaceName, ''--'', ''bash'', ''-c'', remoteCmd]))]))"

text \<open>
  \<^verbatim>\<open>rewriteHooksForSSH\<close> decodes the JSON text, rewrites every handler that has a
  non-empty \<^verbatim>\<open>bash\<close> string in place, and encodes the result. The model works on the
  decoded object; \<^const>\<open>None\<close> is the \<^verbatim>\<open>nil\<close> the Go function returns (text that is
  no JSON object, no \<^verbatim>\<open>hooks\<close> object, or nothing rewritten). The body of the inner
  loop is \<^verbatim>\<open>rewriteHook\<close>, which answers \<^const>\<open>None\<close> where the loop says
  \<^verbatim>\<open>continue\<close>.
\<close>

definition rewriteHook ::
  "(string \<times> any) list \<Rightarrow> string \<Rightarrow> string \<Rightarrow> string \<Rightarrow> (string \<times> any) list option" where
  "rewriteHook h codespaceName workdir remoteBinary =
     (case string_field h ''bash'' of
        None \<Rightarrow> None
      | Some bashCmd \<Rightarrow>
          if bashCmd = [] then None
          else
            (let remoteCwd = (case string_field h ''cwd'' of
                                Some cwd \<Rightarrow> if cwd \<noteq> [] \<and> cwd \<noteq> ''.'' then workdir @ ''/'' @ cwd
                                            else workdir
                              | None \<Rightarrow> workdir);
                 newBash =
                   (if remoteBinary \<noteq> [] then
                      (let execArgs = remoteBinary @ '' exec --workdir '' @ remoteCwd
                             @ concat (map (\<lambda>(k, s). '' --env '' @ k @ ''='' @ s) (env_strings h))
                             @ '' -- bash -c '' @ shellQuote bashCmd
                       in ''gh codespace ssh -c '' @ codespaceName @ '' -- '' @ execArgs)
                    else
                      (let envPrefix = concat (map (\<lambda>(k, s). ''export '' @ k @ ''='' @ shellQuote s @ '' && '')
                                                 (env_strings h));
                           remoteCmd = ''cd '' @ shellQuote remoteCwd @ '' && '' @ envPrefix @ bashCmd
                       in ''gh codespace ssh -c '' @ codespaceName @ '' -- bash -c '' @ shellQuote remoteCmd))
             in Some (AList.delete ''env'' (AList.delete ''cwd'' (AList.update ''bash'' (AString newBash) h)))))"

definition rewriteHandler :: "string \<Rightarrow> string \<Rightarrow> string \<Rightarrow> any \<Rightarrow> any \<times> bool" where
  "rewriteHandler codespaceName workdir remoteBinary handler =
     (case handler of
        AMap h \<Rightarrow>
          (case rewriteHook h codespaceName workdir remoteBinary of
             Some h' \<Rightarrow> (AMap h', True)
           | None \<Rightarrow> (handler, False))
      | _ \<Rightarrow> (handler, False))"

definition rewriteEvent :: "string \<Rightarrow> string \<Rightarrow> string \<Rightarrow> string \<times> any \<Rightarrow> (string \<times> any) \<times> bool" where
  "rewriteEvent codespaceName workdir remoteBinary entry =
     (case entry of (event, handlers) \<Rightarrow>
        (case handlers of
           ASlice handlerList \<Rightarrow>
             (let rs = map (rewriteHandler codespaceName workdir remoteBinary) handlerList
              in ((event, ASlice (map fst rs)), list_ex snd rs))
         | _ \<Rightarrow> ((event, handlers), False)))"

definition rewriteHooksForSSH ::
  "any option \<Rightarrow> string \<Rightarrow> string \<Rightarrow> string \<Rightarrow> (string \<times> any) list option" where
  "rewriteHooksForSSH decoded codespaceName workdir remoteBinary =
     (case decoded of
        Some (AMap config) \<Rightarrow>
          (case map_of config ''hooks'' of
             Some (AMap hooks) \<Rightarrow>
               (let rs = map (rewriteEvent codespaceName workdir remoteBinary) hooks;
                    modified = list_ex snd rs
                in if \<not> modified then None
                   else Some (AList.update ''hooks'' (AMap (map fst rs)) config))
           | _ \<Rightarrow> None)
      | _ \<Rightarrow> None)"

subsection \<open>What the rewritten descriptors hold\<close>

definition server_stdio :: "(string \<times> any) list" where
  "server_stdio = [(''type'', AString ''stdio''), (''command'', AString ''node''),
     (''args'', ASlice [AString ''server.js'']), (''tools'', ASlice [AString ''*'']),
     (''cwd'', AString ''sub''), (''env'', AMap [(''MSG'', AString ''hello world; rm -rf ~'')])]"

definition hook_check :: "(string \<times> any) list" where
  "hook_check = [(''type'', AString ''command''), (''bash'', AString ''./check.sh''),
     (''cwd'', AString ''my scripts''), (''timeoutSec'', AFloat64 10),
     (''env'', AMap [(''MSG'', AString ''it's'')])]"

text \<open>
  Claim C5 says that in the shell-assembly fallback every interpolated value (the working
  directory and each environment value) is quoted, for server descriptors and for hook
  descriptors. The hook branch does quote them with \<^const>\<open>shellQuote\<close>; the server branch
  of \<^const>\<open>rewriteMCPServerForSSH\<close> puts the working directory and the environment values
  into the command line as they are. With the working directory \<^verbatim>\<open>/workspaces/my repo\<close>
  and the environment value \<^verbatim>\<open>hello world; rm -rf ~\<close> the remote shell is given a
  command line in which the space and the semicolon act as shell syntax.
\<close>

theorem rewriteMCPServerForSSH_fallback_unquoted:
  "rewriteMCPServerForSSH server_stdio ''cs'' ''/workspaces/my repo'' [] =
     Some [(''type'', AString ''local''), (''command'', AString ''gh''),
           (''args'', ASlice [AString ''codespace'', AString ''ssh'', AString ''-c'', AString ''cs'',
              AString ''--'', AString ''bash'', AString ''-c'',
              AString ''cd /workspaces/my repo && export MSG=hello world; rm -rf ~ && exec node server.js''])]
   \<and> string_field (the (rewriteHook hook_check ''cs'' ''/workspaces/my repo'' [])) ''bash'' =
       Some (''gh codespace ssh -c cs -- bash -c ''
               @ shellQuote (''cd '' @ shellQuote ''/workspaces/my repo/my scripts''
                               @ '' && export MSG='' @ shellQuote ''it's'' @ '' && ./check.sh''))"
  by (simp add: rewriteMCPServerForSSH_def rewriteHook_def server_stdio_def hook_check_def
      string_field_def env_strings_def arg_strings_def Let_def)




end
